theory Spec2Isabelle
  imports Complex_Main "HOL-Library.Word"
begin

unbundle bit_operations_syntax

section \<open>The fast mixer thread loop of services/audioflinger/FastMixer.cpp\<close>

text \<open>
  The development embeds \<^verbatim>\<open>FastMixer::threadLoop\<close>. One iteration of its
  \<^verbatim>\<open>for (;;)\<close> loop is the function \<open>cycle\<close>: it takes what the outside world
  supplies during that iteration (the record \<open>env\<close>) and the thread's local variables
  (the record \<open>worker\<close>) and returns the locals for the next iteration, or reports that
  the thread returned or crashed. Every call that leaves the thread (the mixing engine,
  the output sink, the futex, the clock, the sleep) is appended to the field \<open>trace\<close>
  in program order.

  Build configuration that is modelled: \<^verbatim>\<open>#define LOG_NDEBUG 0\<close> is
  commented out in the file and \<^verbatim>\<open>FAST_MIXER_STATISTICS\<close> is not defined, so
  \<^verbatim>\<open>ALOG_ASSERT\<close>, \<^verbatim>\<open>ALOGV\<close>, \<^verbatim>\<open>LOG_FATAL\<close>, the sections under
  \<^verbatim>\<open>#if !LOG_NDEBUG\<close> and the statistics are compiled out.
  The C types \<^verbatim>\<open>int\<close>, \<^verbatim>\<open>long\<close>, \<^verbatim>\<open>time_t\<close> and \<^verbatim>\<open>size_t\<close> are
  modelled by integers, and the additions and subtractions of the loop on them are taken
  without overflow. The one conversion of the loop that narrows a value, the
  \<^verbatim>\<open>long long\<close> quotients stored in the \<^verbatim>\<open>long\<close> timing constants (lines 193-195),
  is modelled with the 32-bit \<^verbatim>\<open>long\<close> of the 32-bit targets of this platform: the
  value is kept modulo \<open>2^32\<close> (function \<open>to_long\<close>). The unsigned track mask and the
  unsigned counters of the dump state are 32-bit words that wrap around.
\<close>

subsection \<open>Data model\<close>

type_synonym addr = nat
type_synonym uint32 = "32 word"
type_synonym sample = "16 word"
type_synonym buffer = "nat \<Rightarrow> sample"

text \<open>\<^verbatim>\<open>FastMixerState::Command\<close>. The enumeration is a datatype, so a value outside
  the enumeration (the \<^verbatim>\<open>default:\<close> branch of the switch) does not exist in the model.\<close>

datatype Command = INITIAL | HOT_IDLE | COLD_IDLE | EXIT | MIX | WRITE | MIX_WRITE

text \<open>Modelled from the spec: the values of the enumerators are declared in
  FastMixerState.h, which is not among the sources. The three tests
  \<^verbatim>\<open>command & IDLE\<close>, \<^verbatim>\<open>command & MIX\<close> and \<^verbatim>\<open>command & WRITE\<close> follow the
  specification: IDLE is a bit flag shared by HOT_IDLE and COLD_IDLE, MIX and WRITE
  are bit flags, and MIX_WRITE is MIX | WRITE.\<close>

fun has_IDLE :: "Command \<Rightarrow> bool" where
  "has_IDLE HOT_IDLE = True"
| "has_IDLE COLD_IDLE = True"
| "has_IDLE _ = False"

fun has_MIX :: "Command \<Rightarrow> bool" where
  "has_MIX MIX = True"
| "has_MIX MIX_WRITE = True"
| "has_MIX _ = False"

fun has_WRITE :: "Command \<Rightarrow> bool" where
  "has_WRITE WRITE = True"
| "has_WRITE MIX_WRITE = True"
| "has_WRITE _ = False"

text \<open>A pointer is an address or \<^verbatim>\<open>NULL\<close> (\<open>None\<close>).\<close>

record FastTrack =
  mBufferProvider :: "addr option"
  mVolumeProvider :: "addr option"
  mGeneration :: int

text \<open>The fields of \<^verbatim>\<open>FastMixerState\<close> that the loop reads. The track table is
  indexed by slot number; slots at or above \<^verbatim>\<open>kMaxFastTracks\<close> lie outside the C
  arrays, and the model does not represent an access there.\<close>

record FastMixerState =
  mFastTracks :: "nat \<Rightarrow> FastTrack"
  mFastTracksGen :: int
  mTrackMask :: uint32
  mOutputSink :: "addr option"
  mOutputSinkGen :: int
  mFrameCount :: nat
  mCommand :: Command
  mColdFutexAddr :: "addr option"
  mColdGen :: nat
  mDumpState :: "addr option"

record FastMixerDumpState =
  mCommand_dump :: Command
  mWriteSequence :: uint32
  mFramesWritten :: uint32
  mNumTracks :: uint32
  mWriteErrors :: uint32
  mUnderruns :: uint32
  mOverruns :: uint32

text \<open>The constructor \<^verbatim>\<open>FastMixerDumpState::FastMixerDumpState()\<close>.\<close>

definition FastMixerDumpState_init :: FastMixerDumpState where
  "FastMixerDumpState_init =
     \<lparr>mCommand_dump = INITIAL, mWriteSequence = 0, mFramesWritten = 0, mNumTracks = 0,
      mWriteErrors = 0, mUnderruns = 0, mOverruns = 0\<rparr>"

text \<open>Modelled from the spec: the default constructor of \<^verbatim>\<open>FastMixerState\<close>, which
  builds the static \<^verbatim>\<open>initial\<close> state of the loop, is not among the sources. The
  specification gives the built-in state the command INITIAL; the other fields are
  empty (no tracks, no sink, zero generations, zero frames).\<close>

definition initial :: FastMixerState where
  "initial =
     \<lparr>mFastTracks = (\<lambda>_. \<lparr>mBufferProvider = None, mVolumeProvider = None, mGeneration = 0\<rparr>),
      mFastTracksGen = 0, mTrackMask = 0, mOutputSink = None, mOutputSinkGen = 0,
      mFrameCount = 0, mCommand = INITIAL, mColdFutexAddr = None, mColdGen = 0,
      mDumpState = None\<rparr>"

text \<open>\<^verbatim>\<open>NBAIO_Format\<close> is declared outside the sources: a distinguished invalid
  format and otherwise an opaque code.\<close>

datatype NBAIO_Format = Format_Invalid | Format nat

record timespec =
  tv_sec :: int
  tv_nsec :: int

datatype MixBufferState = UNDEFINED | MIXED | ZEROED

text \<open>Where the pointers \<^verbatim>\<open>previous\<close>, \<^verbatim>\<open>current\<close> and \<^verbatim>\<open>next\<close> can point:
  the static initial state, the local copy \<^verbatim>\<open>preIdle\<close>, or a state owned by the
  state queue. Pointer comparison is equality of these references.\<close>

datatype state_ref = InitialRef | PreIdleRef | QueueRef addr

text \<open>Where \<^verbatim>\<open>dumpState\<close> can point: the local \<^verbatim>\<open>dummyDumpState\<close> or a dump
  area named by a state.\<close>

datatype dump_ref = DummyDump | ExtDump addr

datatype param_target = TRACK | VOLUME
datatype param_name = MAIN_BUFFER | VOLUME0 | VOLUME1
datatype param_value = MixBufferPtr | Value uint32

text \<open>The calls that leave the thread. \<open>StoreWriteSequence\<close> is the store to
  \<^verbatim>\<open>dumpState->mWriteSequence\<close>, whose order relative to the sink's write is what a
  reader of the dump area relies on. \<open>NewMixer\<close> carries the frame count and the sample
  rate given to the constructor of the engine (its third argument is the constant
  \<^verbatim>\<open>kMaxFastTracks\<close>); \<open>SinkWrite\<close> carries the sink, the samples handed over and the
  frame count.\<close>

datatype event =
    Nanosleep int
  | SchedYield
  | AtomicDec addr
  | FutexWait addr int
  | SinkFormat addr
  | DeleteMixer
  | DeleteMixBuffer
  | NewMixer nat nat
  | NewMixBuffer nat
  | MixerDeleteTrackName int
  | MixerGetTrackName int
  | MixerSetBufferProvider int "addr option"
  | MixerSetParameter int param_target param_name param_value
  | MixerEnable int
  | GetVolumeLR addr
  | MixerProcess
  | Memset nat
  | StoreWriteSequence uint32
  | SinkWrite addr "sample list" nat
  | ClockGettime

text \<open>The local variables of \<^verbatim>\<open>threadLoop\<close>. \<open>mixer\<close> holds the constructor
  arguments of the engine when one exists; \<open>dumps\<close> is the memory of the dump areas
  the thread writes to, \<open>dumps DummyDump\<close> being the local \<^verbatim>\<open>dummyDumpState\<close>.\<close>

record worker =
  previous :: state_ref
  current :: state_ref
  preIdle :: FastMixerState
  oldTs :: timespec
  oldTsValid :: bool
  sleepNs :: int
  fastTrackNames :: "nat \<Rightarrow> int"
  generations :: "nat \<Rightarrow> int"
  outputSink :: "addr option"
  outputSinkGen :: int
  mixer :: "(nat \<times> nat) option"
  mixBuffer :: "buffer option"
  mixBufferState :: MixBufferState
  format :: NBAIO_Format
  sampleRate :: nat
  fastTracksGen :: int
  periodNs :: int
  underrunNs :: int
  overrunNs :: int
  dumpState :: dump_ref
  dumps :: "dump_ref \<Rightarrow> FastMixerDumpState"
  ignoreNextOverrun :: bool
  coldGen :: nat
  trace :: "event list"

text \<open>What the outside world supplies during one iteration: the result of
  \<^verbatim>\<open>mSQ.poll()\<close>, the states in the queue's storage, the value that
  \<^verbatim>\<open>android_atomic_dec\<close> finds at an address, the format a sink reports and the
  sample rate of a format, the name \<^verbatim>\<open>getTrackName()\<close> returns when it is called
  for a slot, the packed volume \<^verbatim>\<open>getVolumeLR()\<close> returns when it is called for a
  slot, the contents of a freshly allocated buffer, what \<^verbatim>\<open>process()\<close> leaves in
  the main buffer, the result of the sink's \<^verbatim>\<open>write\<close>, and the result of
  \<^verbatim>\<open>clock_gettime\<close> (\<open>None\<close> when it fails).\<close>

record env =
  poll :: "addr option"
  heap :: "addr \<Rightarrow> FastMixerState"
  futex_old :: "addr \<Rightarrow> int"
  sink_format :: "addr \<Rightarrow> NBAIO_Format"
  Format_sampleRate :: "NBAIO_Format \<Rightarrow> nat"
  getTrackName :: "nat \<Rightarrow> int"
  getVolumeLR :: "nat \<Rightarrow> uint32"
  fresh_buffer :: buffer
  process_out :: "buffer \<Rightarrow> buffer"
  sink_write :: int
  clock :: "timespec option"

datatype outcome = Continue worker | Exited worker | Crashed

definition FAST_HOT_IDLE_NS :: int where
  "FAST_HOT_IDLE_NS = 1000000"

definition FAST_DEFAULT_NS :: int where
  "FAST_DEFAULT_NS = 999999999"

text \<open>The locals as they are initialised before the loop.\<close>

definition worker_init :: worker where
  "worker_init =
     \<lparr>previous = InitialRef, current = InitialRef, preIdle = initial,
      oldTs = \<lparr>tv_sec = 0, tv_nsec = 0\<rparr>, oldTsValid = False, sleepNs = - 1,
      fastTrackNames = (\<lambda>_. - 1), generations = (\<lambda>_. 0),
      outputSink = None, outputSinkGen = 0, mixer = None, mixBuffer = None,
      mixBufferState = UNDEFINED, format = Format_Invalid, sampleRate = 0,
      fastTracksGen = 0, periodNs = 0, underrunNs = 0, overrunNs = 0,
      dumpState = DummyDump, dumps = (\<lambda>_. FastMixerDumpState_init),
      ignoreNextOverrun = True, coldGen = 0, trace = []\<rparr>"

definition emit :: "event list \<Rightarrow> worker \<Rightarrow> worker" where
  "emit evs w = w\<lparr>trace := trace w @ evs\<rparr>"

definition deref :: "env \<Rightarrow> worker \<Rightarrow> state_ref \<Rightarrow> FastMixerState" where
  "deref e w r = (case r of InitialRef \<Rightarrow> initial | PreIdleRef \<Rightarrow> preIdle w | QueueRef a \<Rightarrow> heap e a)"

text \<open>A store through the pointer \<^verbatim>\<open>dumpState\<close>.\<close>

definition upd_dump :: "(FastMixerDumpState \<Rightarrow> FastMixerDumpState) \<Rightarrow> worker \<Rightarrow> worker" where
  "upd_dump f w = w\<lparr>dumps := (dumps w)(dumpState w := f (dumps w (dumpState w)))\<rparr>"

definition cur_dump :: "worker \<Rightarrow> FastMixerDumpState" where
  "cur_dump w = dumps w (dumpState w)"

subsection \<open>Iterating over the bits of a track mask\<close>

text \<open>\<^verbatim>\<open>__builtin_ctz\<close>: the number of trailing zero bits (the builtin is undefined
  at 0, where the loops never call it).\<close>

primrec ctz_aux :: "nat \<Rightarrow> uint32 \<Rightarrow> nat" where
  "ctz_aux 0 m = 0"
| "ctz_aux (Suc n) m = (if bit m 0 then 0 else Suc (ctz_aux n (drop_bit 1 m)))"

definition ctz :: "uint32 \<Rightarrow> nat" where
  "ctz m = ctz_aux 32 m"

lemma ctz_aux_first:
  "\<exists>k<n. bit m k \<Longrightarrow>
     bit m (ctz_aux n m) \<and> (\<forall>j<ctz_aux n m. \<not> bit m j) \<and> ctz_aux n m < n"
proof (induction n arbitrary: m)
  case 0
  then show ?case by simp
next
  case (Suc n)
  show ?case
  proof (cases "bit m 0")
    case True
    then show ?thesis by simp
  next
    case False
    from Suc.prems obtain k where k: "k < Suc n" "bit m k" by blast
    with False obtain k' where k': "k = Suc k'" by (cases k) auto
    with k have "\<exists>k<n. bit (drop_bit 1 m) k" by (auto simp: bit_drop_bit_eq)
    from Suc.IH[OF this] have ih: "bit (drop_bit 1 m) (ctz_aux n (drop_bit 1 m))"
      "\<forall>j<ctz_aux n (drop_bit 1 m). \<not> bit (drop_bit 1 m) j"
      "ctz_aux n (drop_bit 1 m) < n" by auto
    have "\<not> bit m j" if "j < Suc (ctz_aux n (drop_bit 1 m))" for j
    proof (cases j)
      case 0
      with False show ?thesis by simp
    next
      case (Suc j')
      with that ih(2) show ?thesis by (auto simp: bit_drop_bit_eq)
    qed
    with False ih(1,3) show ?thesis by (auto simp: bit_drop_bit_eq)
  qed
qed

lemma ctz_first:
  assumes "m \<noteq> 0"
  shows "bit m (ctz m)" and "\<forall>j<ctz m. \<not> bit m j" and "ctz m < 32"
proof -
  from assms obtain k where k: "bit m k" by (auto simp: bit_eq_iff)
  then have "k < 32" using bit_imp_le_length[of m k] by simp
  with k have "\<exists>k<32. bit m k" by blast
  from ctz_aux_first[OF this]
  show "bit m (ctz m)" and "\<forall>j<ctz m. \<not> bit m j" and "ctz m < 32"
    by (simp_all add: ctz_def)
qed

lemma clear_lowest_less:
  assumes "m \<noteq> 0"
  shows "unat (m AND NOT (push_bit (ctz m) 1)) < unat m"
proof -
  have le: "m AND NOT (push_bit (ctz m) 1) \<le> m" by (rule word_and_le2)
  have "bit m (ctz m)" using assms by (rule ctz_first)
  moreover have "\<not> bit (m AND NOT (push_bit (ctz m) 1)) (ctz m)"
    using ctz_first(3)[OF assms] by (simp add: bit_and_iff bit_not_iff bit_exp_iff)
  ultimately have "m AND NOT (push_bit (ctz m) 1) \<noteq> m" by metis
  with le have "m AND NOT (push_bit (ctz m) 1) < m" by simp
  then show ?thesis by (simp add: word_less_nat_alt)
qed

text \<open>The shape of the four mask loops:
  \<^verbatim>\<open>while (m != 0) { i = __builtin_ctz(m); m &= ~(1 << i); body }\<close>.\<close>

function for_each_bit :: "(nat \<Rightarrow> 's \<Rightarrow> 's) \<Rightarrow> uint32 \<Rightarrow> 's \<Rightarrow> 's" where
  "for_each_bit body m s =
     (if m = 0 then s
      else (let i = ctz m in for_each_bit body (m AND NOT (push_bit i 1)) (body i s)))"
  by pat_completeness auto
termination
  by (relation "measure (\<lambda>(body, m, s). unat m)")
     (auto simp: clear_lowest_less simp del: push_bit_of_1)

declare for_each_bit.simps [simp del]

text \<open>\<^verbatim>\<open>popcount\<close> of a 32-bit mask.\<close>

definition set_bits :: "uint32 \<Rightarrow> nat list" where
  "set_bits m = filter (bit m) [0..<32]"

definition popcount :: "uint32 \<Rightarrow> nat" where
  "popcount m = length (set_bits m)"

subsection \<open>The steps of one iteration\<close>

text \<open>Lines 73-82: nanosleep, sched_yield or busy wait.\<close>

definition do_sleep :: "worker \<Rightarrow> worker" where
  "do_sleep w =
     (if sleepNs w \<ge> 0 then
        (if sleepNs w > 0 then emit [Nanosleep (sleepNs w)] w else emit [SchedYield] w)
      else w)"

text \<open>Lines 95-119, the body of \<^verbatim>\<open>if (next != current)\<close>: bind the dump area of the
  new state and update \<^verbatim>\<open>previous\<close> and \<^verbatim>\<open>current\<close>. \<open>command\<close> is
  \<^verbatim>\<open>next->mCommand\<close>, read on line 94.\<close>

definition state_change :: "env \<Rightarrow> state_ref \<Rightarrow> worker \<Rightarrow> worker" where
  "state_change e next w =
     (let command = mCommand (deref e w next);
          w1 = w\<lparr>dumpState := (case mDumpState (deref e w next) of
                                 Some d \<Rightarrow> ExtDump d | None \<Rightarrow> DummyDump)\<rparr>;
          w2 = (if \<not> has_IDLE (mCommand (deref e w1 (current w1))) then
                  (let w3 = (if has_IDLE command then
                               w1\<lparr>preIdle := deref e w1 (current w1), current := PreIdleRef,
                                  oldTsValid := False, ignoreNextOverrun := True\<rparr>
                             else w1)
                   in w3\<lparr>previous := current w3\<rparr>)
                else w1)
      in w2\<lparr>current := next\<rparr>)"

text \<open>Lines 131-145, the case \<^verbatim>\<open>COLD_IDLE\<close>. Decrementing through a null
  \<^verbatim>\<open>mColdFutexAddr\<close> crashes the thread.\<close>

definition cold_idle :: "env \<Rightarrow> worker \<Rightarrow> outcome" where
  "cold_idle e w =
     (let cur = deref e w (current w) in
      if mColdGen cur \<noteq> coldGen w then
        (case mColdFutexAddr cur of
           None \<Rightarrow> Crashed
         | Some coldFutexAddr \<Rightarrow>
             (let old = futex_old e coldFutexAddr;
                  w1 = emit [AtomicDec coldFutexAddr] w;
                  w2 = (if old \<le> 0 then emit [FutexWait coldFutexAddr (old - 1)] w1 else w1)
              in Continue (w2\<lparr>sleepNs := - 1, coldGen := mColdGen cur\<rparr>)))
      else Continue (w\<lparr>sleepNs := FAST_HOT_IDLE_NS\<rparr>))"

text \<open>Lines 146-149, the case \<^verbatim>\<open>EXIT\<close>.\<close>

definition delete_engine :: "worker \<Rightarrow> worker" where
  "delete_engine w =
     (let w1 = (if mixer w \<noteq> None then emit [DeleteMixer] w else w);
          w2 = (if mixBuffer w1 \<noteq> None then emit [DeleteMixBuffer] w1 else w1)
      in w2\<lparr>mixer := None, mixBuffer := None\<rparr>)"

text \<open>Lines 168-179: a new sink generation rebinds the sink and reads its format.\<close>

definition rebind_sink :: "env \<Rightarrow> FastMixerState \<Rightarrow> worker \<Rightarrow> worker" where
  "rebind_sink e cur w =
     (if mOutputSinkGen cur \<noteq> outputSinkGen w then
        (let w1 = w\<lparr>outputSink := mOutputSink cur, outputSinkGen := mOutputSinkGen cur\<rparr>
         in case mOutputSink cur of
              None \<Rightarrow> w1\<lparr>format := Format_Invalid, sampleRate := 0\<rparr>
            | Some s \<Rightarrow>
                (let f = sink_format e s
                 in (emit [SinkFormat s] w1)\<lparr>format := f, sampleRate := Format_sampleRate e f\<rparr>))
      else w)"

text \<open>The locals \<^verbatim>\<open>periodNs\<close>, \<^verbatim>\<open>underrunNs\<close> and \<^verbatim>\<open>overrunNs\<close> are declared
  \<^verbatim>\<open>long\<close> (lines 60-62), which has 32 bits on the 32-bit targets of this platform,
  while the quotients of lines 193-195 are computed in \<^verbatim>\<open>long long\<close> (64 bits, the
  constants carry the suffix \<^verbatim>\<open>LL\<close>). The assignment keeps the quotient modulo
  \<open>2^32\<close>, read as a signed number.\<close>

definition to_long :: "int \<Rightarrow> int" where
  "to_long x = (x + 2147483648) mod 4294967296 - 2147483648"

text \<open>Lines 182-209, the body of the test for a changed format or frame count.\<close>

definition reconfigure :: "env \<Rightarrow> FastMixerState \<Rightarrow> nat \<Rightarrow> worker \<Rightarrow> worker" where
  "reconfigure e cur frameCount w =
     (let w1 = delete_engine w;
          w2 = (if frameCount > 0 \<and> sampleRate w1 > 0 then
                  (emit [NewMixer frameCount (sampleRate w1), NewMixBuffer (frameCount * 2)] w1)
                    \<lparr>mixer := Some (frameCount, sampleRate w1),
                     mixBuffer := Some (fresh_buffer e),
                     periodNs := to_long ((int frameCount * 1000000000) div int (sampleRate w1)),
                     underrunNs := to_long ((int frameCount * 1750000000) div int (sampleRate w1)),
                     overrunNs := to_long ((int frameCount * 250000000) div int (sampleRate w1))\<rparr>
                else w1\<lparr>periodNs := 0, underrunNs := 0, overrunNs := 0\<rparr>)
      in w2\<lparr>mixBufferState := UNDEFINED, fastTracksGen := mFastTracksGen cur - 1\<rparr>)"

text \<open>Lines 222-235, 239-256 and 261-282: the bodies of the loops over the removed,
  the added and the modified tracks.\<close>

definition removed_body :: "FastMixerState \<Rightarrow> nat \<Rightarrow> worker \<Rightarrow> worker" where
  "removed_body cur i w =
     (let fastTrack = mFastTracks cur i;
          w1 = (if mixer w \<noteq> None then emit [MixerDeleteTrackName (fastTrackNames w i)] w
                else w)
      in w1\<lparr>generations := (generations w1)(i := mGeneration fastTrack)\<rparr>)"

definition added_body :: "env \<Rightarrow> FastMixerState \<Rightarrow> nat \<Rightarrow> worker \<Rightarrow> worker" where
  "added_body e cur i w =
     (let fastTrack = mFastTracks cur i;
          bufferProvider = mBufferProvider fastTrack;
          w1 = (if mixer w \<noteq> None then
                  (let name = getTrackName e i
                   in (emit [MixerGetTrackName name,
                             MixerSetBufferProvider name bufferProvider,
                             MixerSetParameter name TRACK MAIN_BUFFER MixBufferPtr,
                             MixerEnable name] w)
                        \<lparr>fastTrackNames := (fastTrackNames w)(i := name)\<rparr>)
                else w)
      in w1\<lparr>generations := (generations w1)(i := mGeneration fastTrack)\<rparr>)"

definition modified_body :: "FastMixerState \<Rightarrow> nat \<Rightarrow> worker \<Rightarrow> worker" where
  "modified_body cur i w =
     (let fastTrack = mFastTracks cur i in
      if mGeneration fastTrack \<noteq> generations w i then
        (let bufferProvider = mBufferProvider fastTrack;
             w1 = (if mixer w \<noteq> None then
                     (let name = fastTrackNames w i;
                          w2 = emit [MixerSetBufferProvider name bufferProvider] w
                      in if mVolumeProvider fastTrack = None then
                           emit [MixerSetParameter name VOLUME VOLUME0 (Value 0x1000),
                                 MixerSetParameter name VOLUME VOLUME1 (Value 0x1000)] w2
                         else w2)
                   else w)
         in w1\<lparr>generations := (generations w1)(i := mGeneration fastTrack)\<rparr>)
      else w)"

text \<open>Lines 215-287, the body of the test \<^verbatim>\<open>current->mFastTracksGen != fastTracksGen\<close>.\<close>

definition track_diff :: "env \<Rightarrow> FastMixerState \<Rightarrow> uint32 \<Rightarrow> worker \<Rightarrow> worker" where
  "track_diff e cur previousTrackMask w =
     (let currentTrackMask = mTrackMask cur;
          w1 = for_each_bit (removed_body cur) (previousTrackMask AND NOT currentTrackMask) w;
          w2 = for_each_bit (added_body e cur) (currentTrackMask AND NOT previousTrackMask) w1;
          w3 = for_each_bit (modified_body cur) (currentTrackMask AND previousTrackMask) w2;
          w4 = w3\<lparr>fastTracksGen := mFastTracksGen cur\<rparr>
      in upd_dump (\<lambda>d. d\<lparr>mNumTracks := of_nat (popcount currentTrackMask)\<rparr>) w4)"

text \<open>Lines 158-293: the handling of a changed state before the work.\<close>

definition handle_state_change :: "env \<Rightarrow> worker \<Rightarrow> worker" where
  "handle_state_change e w =
     (let cur = deref e w (current w);
          frameCount = mFrameCount cur
      in if current w \<noteq> previous w then
           (let prev = deref e w (previous w);
                previousFormat = format w;
                w1 = rebind_sink e cur w;
                reconf = (format w1 \<noteq> previousFormat \<or> frameCount \<noteq> mFrameCount prev);
                w2 = (if reconf then reconfigure e cur frameCount w1 else w1);
                previousTrackMask = (if reconf then 0 else mTrackMask prev);
                w3 = (if mFastTracksGen cur \<noteq> fastTracksGen w2
                      then track_diff e cur previousTrackMask w2 else w2)
            in w3\<lparr>previous := current w3\<rparr>)
         else w)"

text \<open>Lines 299-313: the body of the loop that updates the volumes.\<close>

definition volume_body :: "env \<Rightarrow> FastMixerState \<Rightarrow> nat \<Rightarrow> worker \<Rightarrow> worker" where
  "volume_body e cur i w =
     (let fastTrack = mFastTracks cur i;
          name = fastTrackNames w i
      in case mVolumeProvider fastTrack of
           Some vp \<Rightarrow>
             (let vlr = getVolumeLR e i
              in emit [GetVolumeLR vp,
                       MixerSetParameter name VOLUME VOLUME0 (Value (vlr AND 0xFFFF)),
                       MixerSetParameter name VOLUME VOLUME1 (Value (drop_bit 16 vlr))] w)
         | None \<Rightarrow> w)"

text \<open>Lines 296-319: mix, or mark a buffer that holds an old mix as undefined.\<close>

definition mix_step :: "env \<Rightarrow> Command \<Rightarrow> worker \<Rightarrow> worker" where
  "mix_step e command w =
     (if has_MIX command \<and> mixer w \<noteq> None then
        (let cur = deref e w (current w);
             w1 = for_each_bit (volume_body e cur) (mTrackMask cur) w
         in (emit [MixerProcess] w1)
              \<lparr>mixBuffer := map_option (process_out e) (mixBuffer w1), mixBufferState := MIXED\<rparr>)
      else if mixBufferState w = MIXED then w\<lparr>mixBufferState := UNDEFINED\<rparr>
      else w)"

text \<open>\<^verbatim>\<open>memset(mixBuffer, 0, frameCount * 2 * sizeof(short))\<close> clears the first
  \<open>frameCount * 2\<close> samples; the sink's write reads the same range.\<close>

definition memset_zero :: "buffer \<Rightarrow> nat \<Rightarrow> buffer" where
  "memset_zero b n = (\<lambda>i. if i < n then 0 else b i)"

definition samples :: "buffer \<Rightarrow> nat \<Rightarrow> sample list" where
  "samples b n = map b [0..<n]"

text \<open>Lines 320-336: write the mix buffer to the sink.\<close>

definition write_step :: "env \<Rightarrow> Command \<Rightarrow> nat \<Rightarrow> worker \<Rightarrow> worker" where
  "write_step e command frameCount w =
     (case (outputSink w, mixBuffer w) of
        (Some sink, Some buf) \<Rightarrow>
          (if has_WRITE command then
             (let w1 = (if mixBufferState w = UNDEFINED then
                          (emit [Memset (frameCount * 2)] w)
                            \<lparr>mixBuffer := Some (memset_zero buf (frameCount * 2)),
                             mixBufferState := ZEROED\<rparr>
                        else w);
                  w2 = upd_dump (\<lambda>d. d\<lparr>mWriteSequence := mWriteSequence d + 1\<rparr>) w1;
                  w3 = emit [StoreWriteSequence (mWriteSequence (cur_dump w2))] w2;
                  w4 = emit [SinkWrite sink (samples (the (mixBuffer w3)) (frameCount * 2))
                               frameCount] w3;
                  framesWritten = sink_write e;
                  w5 = upd_dump (\<lambda>d. d\<lparr>mWriteSequence := mWriteSequence d + 1\<rparr>) w4;
                  w6 = emit [StoreWriteSequence (mWriteSequence (cur_dump w5))] w5
              in if framesWritten \<ge> 0 then
                   upd_dump (\<lambda>d. d\<lparr>mFramesWritten := mFramesWritten d + word_of_int framesWritten\<rparr>) w6
                 else upd_dump (\<lambda>d. d\<lparr>mWriteErrors := mWriteErrors d + 1\<rparr>) w6)
           else w)
      | _ \<Rightarrow> w)"

text \<open>Lines 345-371: the classification of a measured interval. \<open>sec\<close> and \<open>nsec\<close>
  are the difference of the two timestamps after the borrow of lines 347-350.\<close>

definition classify :: "int \<Rightarrow> int \<Rightarrow> worker \<Rightarrow> worker" where
  "classify sec nsec w =
     (if sec > 0 \<or> nsec > underrunNs w then
        (upd_dump (\<lambda>d. d\<lparr>mUnderruns := mUnderruns d + 1\<rparr>) w)
          \<lparr>sleepNs := - 1, ignoreNextOverrun := True\<rparr>
      else if nsec < overrunNs w then
        (let w1 = (if ignoreNextOverrun w then w\<lparr>ignoreNextOverrun := False\<rparr>
                   else upd_dump (\<lambda>d. d\<lparr>mOverruns := mOverruns d + 1\<rparr>) w)
         in w1\<lparr>sleepNs := periodNs w1 - overrunNs w1\<rparr>)
      else w\<lparr>sleepNs := - 1, ignoreNextOverrun := False\<rparr>)"

text \<open>Lines 341-394: read the clock and compute the next sleep time.\<close>

definition timing :: "env \<Rightarrow> worker \<Rightarrow> worker" where
  "timing e w =
     (let w0 = emit [ClockGettime] w in
      case clock e of
        Some newTs \<Rightarrow>
          (let w1 = (if oldTsValid w0 then
                       (let sec0 = tv_sec newTs - tv_sec (oldTs w0);
                            nsec0 = tv_nsec newTs - tv_nsec (oldTs w0);
                            sec = (if nsec0 < 0 then sec0 - 1 else sec0);
                            nsec = (if nsec0 < 0 then nsec0 + 1000000000 else nsec0)
                        in classify sec nsec w0)
                     else w0\<lparr>oldTsValid := True, sleepNs := periodNs w0,
                             ignoreNextOverrun := True\<rparr>)
           in w1\<lparr>oldTs := newTs\<rparr>)
      | None \<Rightarrow> w0\<lparr>oldTsValid := False, sleepNs := periodNs w0\<rparr>)"

text \<open>Lines 158-394: a cycle whose command is MIX, WRITE or MIX_WRITE.\<close>

definition work :: "env \<Rightarrow> Command \<Rightarrow> worker \<Rightarrow> worker" where
  "work e command w =
     (let frameCount = mFrameCount (deref e w (current w));
          w1 = handle_state_change e w;
          w2 = mix_step e command w1;
          w3 = write_step e command frameCount w2
      in timing e w3)"

text \<open>Lines 86-92: the state to use in this cycle.\<close>

definition next_ref :: "env \<Rightarrow> worker \<Rightarrow> state_ref" where
  "next_ref e w = (case poll e of None \<Rightarrow> current w | Some a \<Rightarrow> QueueRef a)"

text \<open>One iteration of the loop, lines 71-396.\<close>

definition cycle :: "env \<Rightarrow> worker \<Rightarrow> outcome" where
  "cycle e w =
     (let w1 = (do_sleep w)\<lparr>sleepNs := FAST_DEFAULT_NS\<rparr>;
          next = next_ref e w1;
          command = mCommand (deref e w1 next);
          w2 = (if next \<noteq> current w1 then state_change e next w1 else w1);
          w3 = upd_dump (\<lambda>d. d\<lparr>mCommand_dump := command\<rparr>) w2
      in case command of
           INITIAL \<Rightarrow> Continue (w3\<lparr>sleepNs := FAST_HOT_IDLE_NS\<rparr>)
         | HOT_IDLE \<Rightarrow> Continue (w3\<lparr>sleepNs := FAST_HOT_IDLE_NS\<rparr>)
         | COLD_IDLE \<Rightarrow> cold_idle e w3
         | EXIT \<Rightarrow> Exited (delete_engine w3)
         | MIX \<Rightarrow> Continue (work e command w3)
         | WRITE \<Rightarrow> Continue (work e command w3)
         | MIX_WRITE \<Rightarrow> Continue (work e command w3))"

text \<open>The loop over the environments of successive iterations: it stops at the first
  iteration that returns or crashes.\<close>

fun run :: "env list \<Rightarrow> worker \<Rightarrow> outcome" where
  "run [] w = Continue w"
| "run (e # es) w = (case cycle e w of Continue w' \<Rightarrow> run es w' | out \<Rightarrow> out)"

text \<open>Lines 73-124: the state in which a cycle arrives at its switch statement.\<close>

definition at_switch :: "env \<Rightarrow> worker \<Rightarrow> worker" where
  "at_switch e w =
     (let w1 = (do_sleep w)\<lparr>sleepNs := FAST_DEFAULT_NS\<rparr>;
          next = next_ref e w1;
          command = mCommand (deref e w1 next);
          w2 = (if next \<noteq> current w1 then state_change e next w1 else w1)
      in upd_dump (\<lambda>d. d\<lparr>mCommand_dump := command\<rparr>) w2)"


subsection \<open>Notions of the specification and concrete inputs\<close>

text \<open>The measured interval of the specification, in nanoseconds, and what
  \<^verbatim>\<open>clock_gettime\<close> guarantees of a timestamp.\<close>

definition interval_ns :: "timespec \<Rightarrow> timespec \<Rightarrow> int" where
  "interval_ns old new = (tv_sec new - tv_sec old) * 1000000000 + (tv_nsec new - tv_nsec old)"

definition normalised :: "timespec \<Rightarrow> bool" where
  "normalised ts \<longleftrightarrow> 0 \<le> tv_nsec ts \<and> tv_nsec ts < 1000000000"

text \<open>The calls to the engine that the specification expects of a track diff, for the
  slots of the removed, the added and the modified set, and of the volume update, in
  terms of the locals before the step.\<close>

definition removed_events :: "worker \<Rightarrow> nat list \<Rightarrow> event list" where
  "removed_events w xs = map (\<lambda>i. MixerDeleteTrackName (fastTrackNames w i)) xs"

definition added_events :: "env \<Rightarrow> FastMixerState \<Rightarrow> nat list \<Rightarrow> event list" where
  "added_events e cur xs =
     concat (map (\<lambda>i. [MixerGetTrackName (getTrackName e i),
                        MixerSetBufferProvider (getTrackName e i) (mBufferProvider (mFastTracks cur i)),
                        MixerSetParameter (getTrackName e i) TRACK MAIN_BUFFER MixBufferPtr,
                        MixerEnable (getTrackName e i)]) xs)"

definition modified_events :: "FastMixerState \<Rightarrow> worker \<Rightarrow> nat list \<Rightarrow> event list" where
  "modified_events cur w xs =
     concat (map (\<lambda>i. if mGeneration (mFastTracks cur i) \<noteq> generations w i then
                         MixerSetBufferProvider (fastTrackNames w i) (mBufferProvider (mFastTracks cur i))
                         # (if mVolumeProvider (mFastTracks cur i) = None then
                              [MixerSetParameter (fastTrackNames w i) VOLUME VOLUME0 (Value 0x1000),
                               MixerSetParameter (fastTrackNames w i) VOLUME VOLUME1 (Value 0x1000)]
                            else [])
                       else []) xs)"

definition volume_events :: "env \<Rightarrow> FastMixerState \<Rightarrow> worker \<Rightarrow> nat list \<Rightarrow> event list" where
  "volume_events e cur w xs =
     concat (map (\<lambda>i. case mVolumeProvider (mFastTracks cur i) of
                         Some vp \<Rightarrow>
                           [GetVolumeLR vp,
                            MixerSetParameter (fastTrackNames w i) VOLUME VOLUME0
                              (Value (getVolumeLR e i AND 0xFFFF)),
                            MixerSetParameter (fastTrackNames w i) VOLUME VOLUME1
                              (Value (drop_bit 16 (getVolumeLR e i)))]
                       | None \<Rightarrow> []) xs)"

text \<open>The current state has been handled: what holds of the locals at the top of the
  loop once a cycle has run on the current state.\<close>

definition settled :: "env \<Rightarrow> worker \<Rightarrow> bool" where
  "settled e w =
     (case mCommand (deref e w (current w)) of
        INITIAL \<Rightarrow> True
      | HOT_IDLE \<Rightarrow> True
      | COLD_IDLE \<Rightarrow> coldGen w = mColdGen (deref e w (current w))
      | EXIT \<Rightarrow> False
      | MIX \<Rightarrow> previous w = current w
      | WRITE \<Rightarrow> previous w = current w
      | MIX_WRITE \<Rightarrow> previous w = current w)"

text \<open>A state that binds sink 1 under sink generation 1, and an environment that
  publishes it at address 1, with a sink of the given sample rate.\<close>

definition sink_state :: "Command \<Rightarrow> nat \<Rightarrow> FastMixerState" where
  "sink_state c n =
     initial\<lparr>mCommand := c, mFrameCount := n, mOutputSink := Some 1, mOutputSinkGen := 1\<rparr>"

definition sink_env :: "FastMixerState \<Rightarrow> nat \<Rightarrow> timespec option \<Rightarrow> env" where
  "sink_env s rate ts =
     \<lparr>poll = Some 1, heap = (\<lambda>_. s), futex_old = (\<lambda>_. 0),
      sink_format = (\<lambda>_. Format 0), Format_sampleRate = (\<lambda>_. rate),
      getTrackName = (\<lambda>_. 0), getVolumeLR = (\<lambda>_. 0), fresh_buffer = (\<lambda>_. 0),
      process_out = (\<lambda>b. b), sink_write = int (mFrameCount s), clock = ts\<rparr>"

text \<open>Locals with a valid previous timestamp at time 0 and the timing constants of
  192 frames at 48000 Hz, and an environment in which only the clock matters.\<close>

definition timing_worker :: "bool \<Rightarrow> worker" where
  "timing_worker ign =
     worker_init\<lparr>oldTsValid := True, periodNs := 4000000, underrunNs := 7000000,
                 overrunNs := 1000000, ignoreNextOverrun := ign\<rparr>"

definition clock_env :: "timespec option \<Rightarrow> env" where
  "clock_env ts =
     \<lparr>poll = None, heap = (\<lambda>_. initial), futex_old = (\<lambda>_. 0),
      sink_format = (\<lambda>_. Format_Invalid), Format_sampleRate = (\<lambda>_. 0),
      getTrackName = (\<lambda>_. 0), getVolumeLR = (\<lambda>_. 0), fresh_buffer = (\<lambda>_. 0),
      process_out = (\<lambda>b. b), sink_write = 0, clock = ts\<rparr>"

text \<open>The state a cycle works on: \<^verbatim>\<open>*next\<close> after lines 86-92.\<close>

definition next_state :: "env \<Rightarrow> worker \<Rightarrow> FastMixerState" where
  "next_state e w = deref e w (next_ref e w)"

text \<open>The atomic and futex operations among the events.\<close>

fun is_futex_op :: "event \<Rightarrow> bool" where
  "is_futex_op (AtomicDec _) = True"
| "is_futex_op (FutexWait _ _) = True"
| "is_futex_op _ = False"

text \<open>Every COLD_IDLE state that the cycles of a run see, started from given locals,
  carries the generation \<open>g\<close>.\<close>

fun same_epoch :: "nat \<Rightarrow> env list \<Rightarrow> worker \<Rightarrow> bool" where
  "same_epoch g [] w = True"
| "same_epoch g (e # es) w =
     ((mCommand (next_state e w) \<noteq> COLD_IDLE \<or> mColdGen (next_state e w) = g)
      \<and> (case cycle e w of Continue w' \<Rightarrow> same_epoch g es w' | _ \<Rightarrow> True))"

text \<open>The events of a run that ends without a crash.\<close>

fun final_trace :: "outcome \<Rightarrow> event list option" where
  "final_trace (Continue w) = Some (trace w)"
| "final_trace (Exited w) = Some (trace w)"
| "final_trace Crashed = None"

text \<open>A queue with a COLD_IDLE state of generation 1 at address 10, a HOT_IDLE state at
  address 20 and a COLD_IDLE state of generation 0 elsewhere; the futex word is 0.\<close>

definition c1_env :: "addr \<Rightarrow> env" where
  "c1_env a =
     \<lparr>poll = Some a,
      heap = (\<lambda>x. if x = 10 then initial\<lparr>mCommand := COLD_IDLE, mColdFutexAddr := Some 5, mColdGen := 1\<rparr>
                  else if x = 20 then initial\<lparr>mCommand := HOT_IDLE\<rparr>
                  else initial\<lparr>mCommand := COLD_IDLE, mColdFutexAddr := Some 5\<rparr>),
      futex_old = (\<lambda>_. 0),
      sink_format = (\<lambda>_. Format_Invalid), Format_sampleRate = (\<lambda>_. 0),
      getTrackName = (\<lambda>_. 0), getVolumeLR = (\<lambda>_. 0), fresh_buffer = (\<lambda>_. 0),
      process_out = (\<lambda>b. b), sink_write = 0, clock = None\<rparr>"

text \<open>An environment whose queue holds one state at address 1, which it publishes, and
  another state everywhere else; locals whose current state is at address 2; and locals
  with a sink and a mix buffer filled with a given sample, together with an environment
  whose sink returns a given result.\<close>

definition two_env :: "FastMixerState \<Rightarrow> FastMixerState \<Rightarrow> env" where
  "two_env s1 s2 =
     \<lparr>poll = Some 1, heap = (\<lambda>a. if a = 1 then s1 else s2), futex_old = (\<lambda>_. 0),
      sink_format = (\<lambda>_. Format 0), Format_sampleRate = (\<lambda>_. 48000),
      getTrackName = (\<lambda>i. 4096 + int i), getVolumeLR = (\<lambda>_. 0), fresh_buffer = (\<lambda>_. 0),
      process_out = (\<lambda>b. b), sink_write = 0, clock = None\<rparr>"

definition at2_worker :: worker where
  "at2_worker = worker_init\<lparr>current := QueueRef 2, oldTsValid := True, ignoreNextOverrun := False\<rparr>"

definition write_worker :: "MixBufferState \<Rightarrow> sample \<Rightarrow> worker" where
  "write_worker st x =
     worker_init\<lparr>outputSink := Some 1, mixer := Some (2, 8), mixBuffer := Some (\<lambda>_. x),
                 mixBufferState := st\<rparr>"

definition write_env :: "int \<Rightarrow> env" where
  "write_env r =
     \<lparr>poll = None, heap = (\<lambda>_. initial), futex_old = (\<lambda>_. 0),
      sink_format = (\<lambda>_. Format 0), Format_sampleRate = (\<lambda>_. 8),
      getTrackName = (\<lambda>_. 0), getVolumeLR = (\<lambda>_. 0), fresh_buffer = (\<lambda>_. 0),
      process_out = (\<lambda>b. b), sink_write = r, clock = None\<rparr>"


text \<open>A state with the tracks of slots 1 and 2 active, and locals with an engine and
  the handles \<open>4096 + i\<close>.\<close>

definition diff_state :: FastMixerState where
  "diff_state =
     (sink_state MIX 192)
       \<lparr>mFastTracks := (\<lambda>i. \<lparr>mBufferProvider = Some (100 + i), mVolumeProvider = None,
                               mGeneration = 0\<rparr>),
        mTrackMask := 6, mFastTracksGen := 1\<rparr>"

definition diff_worker :: worker where
  "diff_worker = worker_init\<lparr>mixer := Some (192, 48000), fastTrackNames := (\<lambda>i. 4096 + int i)\<rparr>"

text \<open>Four cycles at 192 frames and 48000 Hz with the command MIX, the clock reading
  0 ms, 8 ms, 12 ms and 12.5 ms, and the locals after each of them.\<close>

definition cx6_env :: "int \<Rightarrow> env" where
  "cx6_env ns = sink_env (sink_state MIX 192) 48000 (Some \<lparr>tv_sec = 0, tv_nsec = ns\<rparr>)"

definition cx6_w1 :: worker where
  "cx6_w1 =
     worker_init\<lparr>previous := QueueRef 1, current := QueueRef 1, oldTsValid := True,
       sleepNs := 4000000, outputSink := Some 1, outputSinkGen := 1,
       mixer := Some (192, 48000), mixBuffer := Some (\<lambda>_. 0), mixBufferState := MIXED,
       format := Format 0, sampleRate := 48000,
       periodNs := 4000000, underrunNs := 7000000, overrunNs := 1000000,
       dumps := (\<lambda>_. FastMixerDumpState_init)
          (DummyDump := FastMixerDumpState_init\<lparr>mCommand_dump := MIX\<rparr>),
       trace := [SinkFormat 1, NewMixer 192 48000, NewMixBuffer 384, MixerProcess, ClockGettime]\<rparr>"

definition cx6_w2 :: worker where
  "cx6_w2 =
     cx6_w1\<lparr>oldTs := \<lparr>tv_sec = 0, tv_nsec = 8000000\<rparr>, sleepNs := - 1, ignoreNextOverrun := True,
       dumps := (\<lambda>_. FastMixerDumpState_init)
          (DummyDump := FastMixerDumpState_init\<lparr>mCommand_dump := MIX, mUnderruns := 1\<rparr>),
       trace := trace cx6_w1 @ [Nanosleep 4000000, MixerProcess, ClockGettime]\<rparr>"

definition cx6_w3 :: worker where
  "cx6_w3 =
     cx6_w2\<lparr>oldTs := \<lparr>tv_sec = 0, tv_nsec = 12000000\<rparr>, sleepNs := - 1,
       ignoreNextOverrun := False,
       trace := trace cx6_w2 @ [MixerProcess, ClockGettime]\<rparr>"

definition cx6_w4 :: worker where
  "cx6_w4 =
     cx6_w3\<lparr>oldTs := \<lparr>tv_sec = 0, tv_nsec = 12500000\<rparr>, sleepNs := 3000000,
       dumps := (\<lambda>_. FastMixerDumpState_init)
          (DummyDump := FastMixerDumpState_init\<lparr>mCommand_dump := MIX, mUnderruns := 1,
             mOverruns := 1\<rparr>),
       trace := trace cx6_w3 @ [MixerProcess, ClockGettime]\<rparr>"

text \<open>A queue that holds a MIX_WRITE state of 192 frames at address 10, a state with a
  given command and no frames at address 20 and a MIX_WRITE state with no frames at
  address 30, all three with the same sink generation; and, for the command INITIAL, the
  locals after the state of address 10, then 20, then 30 has been published.\<close>

definition cx9_env :: "Command \<Rightarrow> addr \<Rightarrow> env" where
  "cx9_env c a =
     \<lparr>poll = Some a,
      heap = (\<lambda>x. if x = 10 then sink_state MIX_WRITE 192
                  else if x = 20 then sink_state c 0 else sink_state MIX_WRITE 0),
      futex_old = (\<lambda>_. 0),
      sink_format = (\<lambda>_. Format 0),
      Format_sampleRate = (\<lambda>f. case f of Format_Invalid \<Rightarrow> 0 | Format _ \<Rightarrow> 48000),
      getTrackName = (\<lambda>_. 0), getVolumeLR = (\<lambda>_. 0), fresh_buffer = (\<lambda>_. 0),
      process_out = (\<lambda>b. b), sink_write = 0, clock = None\<rparr>"

definition cx9_w1 :: worker where
  "cx9_w1 =
     worker_init\<lparr>previous := QueueRef 10, current := QueueRef 10,
       sleepNs := 4000000, outputSink := Some 1, outputSinkGen := 1,
       mixer := Some (192, 48000), mixBuffer := Some (\<lambda>_. 0), mixBufferState := MIXED,
       format := Format 0, sampleRate := 48000,
       periodNs := 4000000, underrunNs := 7000000, overrunNs := 1000000,
       dumps := (\<lambda>_. FastMixerDumpState_init)
          (DummyDump := FastMixerDumpState_init\<lparr>mCommand_dump := MIX_WRITE, mWriteSequence := 2\<rparr>),
       trace := [SinkFormat 1, NewMixer 192 48000, NewMixBuffer 384, MixerProcess,
                 StoreWriteSequence 1, SinkWrite 1 (samples (\<lambda>_. 0) 384) 192,
                 StoreWriteSequence 2, ClockGettime]\<rparr>"



text \<open>The locals after the state of address 10 and then, directly, the state of address
  30 have been published.\<close>

definition cx9_w4 :: worker where
  "cx9_w4 =
     cx9_w1\<lparr>previous := QueueRef 30, current := QueueRef 30, sleepNs := 0,
       mixer := None, mixBuffer := None, mixBufferState := UNDEFINED,
       periodNs := 0, underrunNs := 0, overrunNs := 0,
       trace := trace cx9_w1 @ [Nanosleep 4000000, DeleteMixer, DeleteMixBuffer, ClockGettime]\<rparr>"


text \<open>The calls that create the engine or the mix buffer, run the engine or write to the
  sink.\<close>

fun creates_or_runs :: "event \<Rightarrow> bool" where
  "creates_or_runs (NewMixer _ _) = True"
| "creates_or_runs (NewMixBuffer _) = True"
| "creates_or_runs MixerProcess = True"
| "creates_or_runs (SinkWrite _ _ _) = True"
| "creates_or_runs _ = False"

text \<open>What the loop maintains about the engine from one iteration to the next: the
  engine and the mix buffer exist together; an engine exists only for a positive frame
  count of the state \<open>previous\<close> and a positive sample rate; the sample rate is the one
  of the format held; after an iteration on a state that is not idle, \<open>previous\<close> is
  \<open>current\<close>; and \<open>current\<close> is the built-in state or a published state whose command
  is not INITIAL.\<close>

definition engine_inv :: "env \<Rightarrow> worker \<Rightarrow> bool" where
  "engine_inv e w \<longleftrightarrow>
     (mixer w = None \<longleftrightarrow> mixBuffer w = None)
   \<and> (mixer w \<noteq> None \<longrightarrow> 0 < mFrameCount (deref e w (previous w)) \<and> 0 < sampleRate w)
   \<and> sampleRate w = Format_sampleRate e (format w)
   \<and> (\<not> has_IDLE (mCommand (deref e w (current w))) \<longrightarrow> previous w = current w)
   \<and> (current w = InitialRef \<or> (\<exists>a. current w = QueueRef a \<and> mCommand (heap e a) \<noteq> INITIAL))"

text \<open>The environment \<open>e'\<close> of an iteration belongs to the same world as \<open>e\<close>: the
  published states are the same (they are immutable once published), the sample rate of
  a format is the same, and the state \<open>e'\<close> polls from the queue, if any, does not carry
  the command INITIAL.\<close>

definition same_world :: "env \<Rightarrow> env \<Rightarrow> bool" where
  "same_world e e' \<longleftrightarrow>
     heap e' = heap e \<and> Format_sampleRate e' = Format_sampleRate e
   \<and> (case poll e' of None \<Rightarrow> True | Some a \<Rightarrow> mCommand (heap e a) \<noteq> INITIAL)"


text \<open>The calls that bind the sink and build, delete or configure the engine.\<close>

fun configures :: "event \<Rightarrow> bool" where
  "configures (SinkFormat _) = True"
| "configures DeleteMixer = True"
| "configures DeleteMixBuffer = True"
| "configures (NewMixer _ _) = True"
| "configures (NewMixBuffer _) = True"
| "configures (MixerDeleteTrackName _) = True"
| "configures (MixerGetTrackName _) = True"
| "configures (MixerSetBufferProvider _ _) = True"
| "configures (MixerSetParameter _ _ _ _) = True"
| "configures (MixerEnable _) = True"
| "configures _ = False"

text \<open>An event is silent when it is not a write to the sink, or a write that hands the
  sink zeros only.\<close>

fun silent :: "event \<Rightarrow> bool" where
  "silent (SinkWrite _ xs n) = (xs = replicate (n * 2) 0)"
| "silent _ = True"

text \<open>A buffer marked ZEROED holds zeros on the range of the frame count of the state
  \<open>previous\<close>.\<close>

definition zeroed_inv :: "env \<Rightarrow> worker \<Rightarrow> bool" where
  "zeroed_inv e w \<longleftrightarrow>
     (mixBufferState w = ZEROED \<longrightarrow>
        (\<exists>buf. mixBuffer w = Some buf
           \<and> (\<forall>i < mFrameCount (deref e w (previous w)) * 2. buf i = 0)))"


section \<open>Properties\<close>

subsection \<open>Frame lemmas and the decomposition of a cycle\<close>

lemma emit_frame [simp]:
  "previous (emit evs w) = previous w"
  "current (emit evs w) = current w"
  "preIdle (emit evs w) = preIdle w"
  "oldTs (emit evs w) = oldTs w"
  "oldTsValid (emit evs w) = oldTsValid w"
  "sleepNs (emit evs w) = sleepNs w"
  "fastTrackNames (emit evs w) = fastTrackNames w"
  "generations (emit evs w) = generations w"
  "outputSink (emit evs w) = outputSink w"
  "outputSinkGen (emit evs w) = outputSinkGen w"
  "mixer (emit evs w) = mixer w"
  "mixBuffer (emit evs w) = mixBuffer w"
  "mixBufferState (emit evs w) = mixBufferState w"
  "format (emit evs w) = format w"
  "sampleRate (emit evs w) = sampleRate w"
  "fastTracksGen (emit evs w) = fastTracksGen w"
  "periodNs (emit evs w) = periodNs w"
  "underrunNs (emit evs w) = underrunNs w"
  "overrunNs (emit evs w) = overrunNs w"
  "dumpState (emit evs w) = dumpState w"
  "dumps (emit evs w) = dumps w"
  "ignoreNextOverrun (emit evs w) = ignoreNextOverrun w"
  "coldGen (emit evs w) = coldGen w"
  by (simp_all add: emit_def)

lemma trace_emit [simp]: "trace (emit evs w) = trace w @ evs"
  by (simp add: emit_def)

lemma upd_dump_frame [simp]:
  "previous (upd_dump f w) = previous w"
  "current (upd_dump f w) = current w"
  "preIdle (upd_dump f w) = preIdle w"
  "oldTs (upd_dump f w) = oldTs w"
  "oldTsValid (upd_dump f w) = oldTsValid w"
  "sleepNs (upd_dump f w) = sleepNs w"
  "fastTrackNames (upd_dump f w) = fastTrackNames w"
  "generations (upd_dump f w) = generations w"
  "outputSink (upd_dump f w) = outputSink w"
  "outputSinkGen (upd_dump f w) = outputSinkGen w"
  "mixer (upd_dump f w) = mixer w"
  "mixBuffer (upd_dump f w) = mixBuffer w"
  "mixBufferState (upd_dump f w) = mixBufferState w"
  "format (upd_dump f w) = format w"
  "sampleRate (upd_dump f w) = sampleRate w"
  "fastTracksGen (upd_dump f w) = fastTracksGen w"
  "periodNs (upd_dump f w) = periodNs w"
  "underrunNs (upd_dump f w) = underrunNs w"
  "overrunNs (upd_dump f w) = overrunNs w"
  "dumpState (upd_dump f w) = dumpState w"
  "ignoreNextOverrun (upd_dump f w) = ignoreNextOverrun w"
  "coldGen (upd_dump f w) = coldGen w"
  "trace (upd_dump f w) = trace w"
  by (simp_all add: upd_dump_def)

lemma dumps_upd_dump [simp]:
  "dumps (upd_dump f w) = (dumps w)(dumpState w := f (dumps w (dumpState w)))"
  by (simp add: upd_dump_def)

lemma do_sleep_frame [simp]:
  "previous (do_sleep w) = previous w"
  "current (do_sleep w) = current w"
  "preIdle (do_sleep w) = preIdle w"
  "oldTs (do_sleep w) = oldTs w"
  "oldTsValid (do_sleep w) = oldTsValid w"
  "sleepNs (do_sleep w) = sleepNs w"
  "fastTrackNames (do_sleep w) = fastTrackNames w"
  "generations (do_sleep w) = generations w"
  "outputSink (do_sleep w) = outputSink w"
  "outputSinkGen (do_sleep w) = outputSinkGen w"
  "mixer (do_sleep w) = mixer w"
  "mixBuffer (do_sleep w) = mixBuffer w"
  "mixBufferState (do_sleep w) = mixBufferState w"
  "format (do_sleep w) = format w"
  "sampleRate (do_sleep w) = sampleRate w"
  "fastTracksGen (do_sleep w) = fastTracksGen w"
  "periodNs (do_sleep w) = periodNs w"
  "underrunNs (do_sleep w) = underrunNs w"
  "overrunNs (do_sleep w) = overrunNs w"
  "dumpState (do_sleep w) = dumpState w"
  "dumps (do_sleep w) = dumps w"
  "ignoreNextOverrun (do_sleep w) = ignoreNextOverrun w"
  "coldGen (do_sleep w) = coldGen w"
  by (simp_all add: do_sleep_def)

lemma state_change_frame [simp]:
  "oldTs (state_change e n w) = oldTs w"
  "sleepNs (state_change e n w) = sleepNs w"
  "fastTrackNames (state_change e n w) = fastTrackNames w"
  "generations (state_change e n w) = generations w"
  "outputSink (state_change e n w) = outputSink w"
  "outputSinkGen (state_change e n w) = outputSinkGen w"
  "mixer (state_change e n w) = mixer w"
  "mixBuffer (state_change e n w) = mixBuffer w"
  "mixBufferState (state_change e n w) = mixBufferState w"
  "format (state_change e n w) = format w"
  "sampleRate (state_change e n w) = sampleRate w"
  "fastTracksGen (state_change e n w) = fastTracksGen w"
  "periodNs (state_change e n w) = periodNs w"
  "underrunNs (state_change e n w) = underrunNs w"
  "overrunNs (state_change e n w) = overrunNs w"
  "dumps (state_change e n w) = dumps w"
  "coldGen (state_change e n w) = coldGen w"
  "trace (state_change e n w) = trace w"
  by (simp_all add: state_change_def Let_def)

lemma delete_engine_frame [simp]:
  "previous (delete_engine w) = previous w"
  "current (delete_engine w) = current w"
  "preIdle (delete_engine w) = preIdle w"
  "oldTs (delete_engine w) = oldTs w"
  "oldTsValid (delete_engine w) = oldTsValid w"
  "sleepNs (delete_engine w) = sleepNs w"
  "fastTrackNames (delete_engine w) = fastTrackNames w"
  "generations (delete_engine w) = generations w"
  "outputSink (delete_engine w) = outputSink w"
  "outputSinkGen (delete_engine w) = outputSinkGen w"
  "mixBufferState (delete_engine w) = mixBufferState w"
  "format (delete_engine w) = format w"
  "sampleRate (delete_engine w) = sampleRate w"
  "fastTracksGen (delete_engine w) = fastTracksGen w"
  "periodNs (delete_engine w) = periodNs w"
  "underrunNs (delete_engine w) = underrunNs w"
  "overrunNs (delete_engine w) = overrunNs w"
  "dumpState (delete_engine w) = dumpState w"
  "dumps (delete_engine w) = dumps w"
  "ignoreNextOverrun (delete_engine w) = ignoreNextOverrun w"
  "coldGen (delete_engine w) = coldGen w"
  by (simp_all add: delete_engine_def Let_def)

lemma current_state_change [simp]: "current (state_change e n w) = n"
  by (simp add: state_change_def Let_def)

lemma deref_cong_heap:
  "r \<noteq> PreIdleRef \<Longrightarrow> deref e w' r = deref e w r"
  by (cases r) (simp_all add: deref_def)

lemma deref_same_preIdle:
  "preIdle w' = preIdle w \<Longrightarrow> deref e w' r = deref e w r"
  by (cases r) (simp_all add: deref_def)

lemma next_ref_cases:
  "next_ref e w = current w \<or> (\<exists>a. next_ref e w = QueueRef a)"
  by (cases "poll e") (simp_all add: next_ref_def)

lemma next_ref_sleep [simp]:
  "next_ref e ((do_sleep w)\<lparr>sleepNs := s\<rparr>) = next_ref e w"
  by (simp add: next_ref_def split: option.splits)

lemma deref_sleep [simp]:
  "deref e ((do_sleep w)\<lparr>sleepNs := s\<rparr>) r = deref e w r"
  by (rule deref_same_preIdle) simp

lemma cycle_at_switch:
  "cycle e w =
     (case mCommand (deref e w (next_ref e w)) of
        INITIAL \<Rightarrow> Continue ((at_switch e w)\<lparr>sleepNs := FAST_HOT_IDLE_NS\<rparr>)
      | HOT_IDLE \<Rightarrow> Continue ((at_switch e w)\<lparr>sleepNs := FAST_HOT_IDLE_NS\<rparr>)
      | COLD_IDLE \<Rightarrow> cold_idle e (at_switch e w)
      | EXIT \<Rightarrow> Exited (delete_engine (at_switch e w))
      | MIX \<Rightarrow> Continue (work e MIX (at_switch e w))
      | WRITE \<Rightarrow> Continue (work e WRITE (at_switch e w))
      | MIX_WRITE \<Rightarrow> Continue (work e MIX_WRITE (at_switch e w)))"
  by (simp add: cycle_def at_switch_def Let_def split: Command.splits)

lemma at_switch_frame [simp]:
  "trace (at_switch e w) = trace (do_sleep w)"
  "coldGen (at_switch e w) = coldGen w"
  "current (at_switch e w) = next_ref e w"
  "sleepNs (at_switch e w) = FAST_DEFAULT_NS"
  "mixer (at_switch e w) = mixer w"
  "mixBuffer (at_switch e w) = mixBuffer w"
  "mixBufferState (at_switch e w) = mixBufferState w"
  "outputSink (at_switch e w) = outputSink w"
  "outputSinkGen (at_switch e w) = outputSinkGen w"
  "format (at_switch e w) = format w"
  "sampleRate (at_switch e w) = sampleRate w"
  "fastTracksGen (at_switch e w) = fastTracksGen w"
  "fastTrackNames (at_switch e w) = fastTrackNames w"
  "generations (at_switch e w) = generations w"
  "periodNs (at_switch e w) = periodNs w"
  "underrunNs (at_switch e w) = underrunNs w"
  "overrunNs (at_switch e w) = overrunNs w"
  "oldTs (at_switch e w) = oldTs w"
  by (simp_all add: at_switch_def Let_def)

lemma deref_at_switch_current:
  "deref e (at_switch e w) (next_ref e w) = deref e w (next_ref e w)"
proof (cases "next_ref e w = current w")
  case True
  then show ?thesis
    by (intro deref_same_preIdle) (simp add: at_switch_def Let_def)
next
  case False
  with next_ref_cases[of e w] obtain a where "next_ref e w = QueueRef a" by auto
  then show ?thesis by (simp add: deref_def)
qed

lemma deref_dumpState [simp]: "deref e (w\<lparr>dumpState := x\<rparr>) r = deref e w r"
  by (rule deref_same_preIdle) simp

lemma deref_PreIdleRef: "deref e w PreIdleRef = preIdle w"
  by (simp add: deref_def)

lemma state_change_previous:
  "previous (state_change e next w) =
     (if has_IDLE (mCommand (deref e w (current w))) then previous w
      else if has_IDLE (mCommand (deref e w next)) then PreIdleRef else current w)"
  "preIdle (state_change e next w) =
     (if \<not> has_IDLE (mCommand (deref e w (current w))) \<and> has_IDLE (mCommand (deref e w next))
      then deref e w (current w) else preIdle w)"
  "oldTsValid (state_change e next w) =
     (if \<not> has_IDLE (mCommand (deref e w (current w))) \<and> has_IDLE (mCommand (deref e w next))
      then False else oldTsValid w)"
  "ignoreNextOverrun (state_change e next w) =
     (if \<not> has_IDLE (mCommand (deref e w (current w))) \<and> has_IDLE (mCommand (deref e w next))
      then True else ignoreNextOverrun w)"
  "dumpState (state_change e next w) =
     (case mDumpState (deref e w next) of Some d \<Rightarrow> ExtDump d | None \<Rightarrow> DummyDump)"
  by (simp_all add: state_change_def Let_def)

lemma at_switch_change:
  assumes "next_ref e w \<noteq> current w"
  shows "previous (at_switch e w) = previous (state_change e (next_ref e w) w)"
    "preIdle (at_switch e w) = preIdle (state_change e (next_ref e w) w)"
    "oldTsValid (at_switch e w) = oldTsValid (state_change e (next_ref e w) w)"
    "ignoreNextOverrun (at_switch e w) = ignoreNextOverrun (state_change e (next_ref e w) w)"
    "dumpState (at_switch e w) = dumpState (state_change e (next_ref e w) w)"
  using assms by (simp_all add: at_switch_def Let_def state_change_previous)

lemma at_switch_same:
  assumes "next_ref e w = current w"
  shows "previous (at_switch e w) = previous w"
    "preIdle (at_switch e w) = preIdle w"
    "oldTsValid (at_switch e w) = oldTsValid w"
    "ignoreNextOverrun (at_switch e w) = ignoreNextOverrun w"
    "dumpState (at_switch e w) = dumpState w"
  using assms by (simp_all add: at_switch_def Let_def)



subsection \<open>The write step in closed form\<close>

lemma write_step_skip:
  "\<not> (has_WRITE command \<and> outputSink w \<noteq> None \<and> mixBuffer w \<noteq> None) \<Longrightarrow>
     write_step e command frameCount w = w"
  by (cases "outputSink w"; cases "mixBuffer w"; simp add: write_step_def)

lemma write_step_trace:
  assumes "has_WRITE command" "outputSink w = Some sink" "mixBuffer w = Some buf"
  shows "trace (write_step e command frameCount w) =
        trace w @ (if mixBufferState w = UNDEFINED then [Memset (frameCount * 2)] else [])
          @ [StoreWriteSequence (mWriteSequence (cur_dump w) + 1),
             SinkWrite sink
               (samples (if mixBufferState w = UNDEFINED then memset_zero buf (frameCount * 2)
                         else buf) (frameCount * 2)) frameCount,
             StoreWriteSequence (mWriteSequence (cur_dump w) + 2)]"
proof (cases "mixBufferState w = UNDEFINED")
  case True
  with assms show ?thesis
    by (simp add: write_step_def emit_def upd_dump_def cur_dump_def)
       (simp_all add: Let_def upd_dump_def)
next
  case False
  with assms show ?thesis
    by (simp add: write_step_def emit_def upd_dump_def cur_dump_def)
       (simp_all add: Let_def upd_dump_def)
qed

lemma write_step_dump:
  assumes "has_WRITE command" "outputSink w = Some sink" "mixBuffer w = Some buf"
  shows "cur_dump (write_step e command frameCount w) =
     (if 0 \<le> sink_write e
      then (cur_dump w)\<lparr>mWriteSequence := mWriteSequence (cur_dump w) + 2,
              mFramesWritten := mFramesWritten (cur_dump w) + word_of_int (sink_write e)\<rparr>
      else (cur_dump w)\<lparr>mWriteSequence := mWriteSequence (cur_dump w) + 2,
              mWriteErrors := mWriteErrors (cur_dump w) + 1\<rparr>)"
proof (cases "mixBufferState w = UNDEFINED")
  case True
  with assms show ?thesis
    by (simp add: write_step_def emit_def upd_dump_def cur_dump_def)
next
  case False
  with assms show ?thesis
    by (simp add: write_step_def emit_def upd_dump_def cur_dump_def)
qed

lemma write_step_state:
  assumes "has_WRITE command" "outputSink w = Some sink" "mixBuffer w = Some buf"
  shows "mixBufferState (write_step e command frameCount w) =
           (if mixBufferState w = UNDEFINED then ZEROED else mixBufferState w)"
proof (cases "mixBufferState w = UNDEFINED")
  case True
  with assms show ?thesis
    by (simp add: write_step_def emit_def upd_dump_def cur_dump_def)
       (simp add: Let_def upd_dump_def)
next
  case False
  with assms show ?thesis
    by (simp add: write_step_def emit_def upd_dump_def cur_dump_def)
       (simp add: Let_def upd_dump_def)
qed

subsection \<open>The mask loops in closed form\<close>

lemma filter_upt_first:
  assumes "c < n" "P c" "\<forall>j<c. \<not> P j"
  shows "filter P [0..<n] = c # filter (\<lambda>i. P i \<and> i \<noteq> c) [0..<n]"
proof -
  have split: "[0..<n] = [0..<c] @ [c] @ [Suc c..<n]"
    using assms(1) by (metis append_Cons append_Nil less_imp_add_positive upt_add_eq_append upt_conv_Cons less_eq_nat.simps(1))
  have a: "filter P [0..<c] = []" using assms(3) by (auto simp: filter_empty_conv)
  have b: "filter (\<lambda>i. P i \<and> i \<noteq> c) [0..<c] = []" using assms(3) by (auto simp: filter_empty_conv)
  have c: "filter P [Suc c..<n] = filter (\<lambda>i. P i \<and> i \<noteq> c) [Suc c..<n]"
    by (rule filter_cong) auto
  show ?thesis
    by (subst (1 2) split) (simp only: filter_append a b c filter.simps assms(2), simp)
qed

lemma set_bits_step:
  assumes "m \<noteq> 0"
  shows "set_bits m = ctz m # set_bits (m AND NOT (push_bit (ctz m) 1))"
proof -
  note f = ctz_first[OF assms]
  have "filter (bit m) [0..<32] = ctz m # filter (\<lambda>i. bit m i \<and> i \<noteq> ctz m) [0..<32]"
    using f by (intro filter_upt_first) auto
  moreover have "(\<lambda>i. bit m i \<and> i \<noteq> ctz m) = bit (m AND NOT (push_bit (ctz m) 1))"
    using f(3) by (auto simp: fun_eq_iff bit_and_iff bit_not_iff bit_exp_iff dest: bit_imp_le_length)
  ultimately show ?thesis by (simp add: set_bits_def)
qed

lemma set_bits_0 [simp]: "set_bits 0 = []"
  by (simp add: set_bits_def)

lemma for_each_bit_fold: "for_each_bit body m s = fold body (set_bits m) s"
proof (induction body m s rule: for_each_bit.induct)
  case (1 body m s)
  show ?case
  proof (cases "m = 0")
    case True
    then show ?thesis by (simp add: for_each_bit.simps)
  next
    case False
    with 1 show ?thesis
      by (subst for_each_bit.simps) (simp add: set_bits_step[OF False] Let_def)
  qed
qed

lemma set_set_bits: "set (set_bits m) = {i. bit m i}"
  by (auto simp: set_bits_def dest: bit_imp_le_length)

lemma distinct_set_bits: "distinct (set_bits m)"
  by (simp add: set_bits_def)

lemma removed_body_eq:
  "removed_body cur i w =
     w\<lparr>generations := (generations w)(i := mGeneration (mFastTracks cur i)),
       trace := trace w @ (if mixer w \<noteq> None then [MixerDeleteTrackName (fastTrackNames w i)] else [])\<rparr>"
  by (simp add: removed_body_def emit_def Let_def)

lemma fold_removed:
  "fold (removed_body cur) xs w =
     w\<lparr>generations := (\<lambda>i. if i \<in> set xs then mGeneration (mFastTracks cur i) else generations w i),
       trace := trace w @ (if mixer w \<noteq> None then removed_events w xs else [])\<rparr>"
proof (induction xs arbitrary: w)
  case Nil
  show ?case by (simp add: removed_events_def)
next
  case (Cons x xs)
  have "fold (removed_body cur) (x # xs) w = fold (removed_body cur) xs (removed_body cur x w)"
    by simp
  also have "\<dots> = (removed_body cur x w)
        \<lparr>generations := (\<lambda>i. if i \<in> set xs then mGeneration (mFastTracks cur i)
                               else generations (removed_body cur x w) i),
         trace := trace (removed_body cur x w) @
           (if mixer (removed_body cur x w) \<noteq> None
            then removed_events (removed_body cur x w) xs else [])\<rparr>"
    by (rule Cons.IH)
  also have "\<dots> = w\<lparr>generations := (\<lambda>i. if i \<in> set (x # xs) then mGeneration (mFastTracks cur i)
                                          else generations w i),
       trace := trace w @ (if mixer w \<noteq> None then removed_events w (x # xs) else [])\<rparr>"
    by (simp add: removed_body_eq removed_events_def fun_eq_iff)
  finally show ?case .
qed

lemma added_body_eq:
  "added_body e cur i w =
     w\<lparr>fastTrackNames := (if mixer w \<noteq> None then (fastTrackNames w)(i := getTrackName e i)
                           else fastTrackNames w),
       generations := (generations w)(i := mGeneration (mFastTracks cur i)),
       trace := trace w @ (if mixer w \<noteq> None then added_events e cur [i] else [])\<rparr>"
  by (simp add: added_body_def emit_def Let_def added_events_def)

lemma fold_added:
  "fold (added_body e cur) xs w =
     w\<lparr>fastTrackNames := (if mixer w \<noteq> None
                           then (\<lambda>i. if i \<in> set xs then getTrackName e i else fastTrackNames w i)
                           else fastTrackNames w),
       generations := (\<lambda>i. if i \<in> set xs then mGeneration (mFastTracks cur i) else generations w i),
       trace := trace w @ (if mixer w \<noteq> None then added_events e cur xs else [])\<rparr>"
proof (induction xs arbitrary: w)
  case Nil
  show ?case by (simp add: added_events_def)
next
  case (Cons x xs)
  have "fold (added_body e cur) (x # xs) w = fold (added_body e cur) xs (added_body e cur x w)"
    by simp
  also have "\<dots> = (added_body e cur x w)
     \<lparr>fastTrackNames := (if mixer (added_body e cur x w) \<noteq> None
                           then (\<lambda>i. if i \<in> set xs then getTrackName e i
                                     else fastTrackNames (added_body e cur x w) i)
                           else fastTrackNames (added_body e cur x w)),
       generations := (\<lambda>i. if i \<in> set xs then mGeneration (mFastTracks cur i)
                            else generations (added_body e cur x w) i),
       trace := trace (added_body e cur x w) @
          (if mixer (added_body e cur x w) \<noteq> None then added_events e cur xs else [])\<rparr>"
    by (rule Cons.IH)
  also have "\<dots> = w\<lparr>fastTrackNames := (if mixer w \<noteq> None
                           then (\<lambda>i. if i \<in> set (x # xs) then getTrackName e i else fastTrackNames w i)
                           else fastTrackNames w),
       generations := (\<lambda>i. if i \<in> set (x # xs) then mGeneration (mFastTracks cur i) else generations w i),
       trace := trace w @ (if mixer w \<noteq> None then added_events e cur (x # xs) else [])\<rparr>"
    by (simp add: added_body_eq added_events_def fun_eq_iff)
  finally show ?case .
qed

lemma modified_body_eq:
  "modified_body cur i w =
     w\<lparr>generations := (generations w)(i := mGeneration (mFastTracks cur i)),
       trace := trace w @ (if mixer w \<noteq> None then modified_events cur w [i] else [])\<rparr>"
  by (simp add: modified_body_def emit_def Let_def modified_events_def fun_eq_iff)

lemma modified_events_cong:
  "\<forall>i\<in>set xs. generations w' i = generations w i \<and> fastTrackNames w' i = fastTrackNames w i \<Longrightarrow>
     modified_events cur w' xs = modified_events cur w xs"
  unfolding modified_events_def by (intro arg_cong[where f = concat] map_cong) auto

lemma fold_modified:
  "distinct xs \<Longrightarrow>
   fold (modified_body cur) xs w =
     w\<lparr>generations := (\<lambda>i. if i \<in> set xs then mGeneration (mFastTracks cur i) else generations w i),
       trace := trace w @ (if mixer w \<noteq> None then modified_events cur w xs else [])\<rparr>"
proof (induction xs arbitrary: w)
  case Nil
  show ?case by (simp add: modified_events_def)
next
  case (Cons x xs)
  from Cons.prems have d: "distinct xs" and nx: "x \<notin> set xs" by simp_all
  have c: "modified_events cur (modified_body cur x w) xs = modified_events cur w xs"
    using nx by (intro modified_events_cong) (auto simp: modified_body_eq)
  have s: "modified_events cur w (x # xs) = modified_events cur w [x] @ modified_events cur w xs"
    by (simp add: modified_events_def)
  have "fold (modified_body cur) (x # xs) w = fold (modified_body cur) xs (modified_body cur x w)"
    by simp
  also have "\<dots> = (modified_body cur x w)
     \<lparr>generations := (\<lambda>i. if i \<in> set xs then mGeneration (mFastTracks cur i)
                            else generations (modified_body cur x w) i),
       trace := trace (modified_body cur x w) @
          (if mixer (modified_body cur x w) \<noteq> None
           then modified_events cur (modified_body cur x w) xs else [])\<rparr>"
    by (rule Cons.IH[OF d])
  also have "\<dots> = w\<lparr>generations := (\<lambda>i. if i \<in> set (x # xs) then mGeneration (mFastTracks cur i)
                            else generations w i),
       trace := trace w @ (if mixer w \<noteq> None then modified_events cur w (x # xs) else [])\<rparr>"
    unfolding c s by (simp add: modified_body_eq fun_eq_iff)
  finally show ?case .
qed

lemma masks_disjoint:
  "set (set_bits (p AND NOT c)) \<inter> set (set_bits (c AND NOT p)) = {}"
  "set (set_bits (p AND NOT c)) \<inter> set (set_bits (c AND p)) = {}"
  "set (set_bits (c AND NOT p)) \<inter> set (set_bits (c AND p)) = {}"
  by (auto simp: set_set_bits bit_and_iff bit_not_iff)

lemma track_diff_eq:
  fixes pm :: uint32 and cur :: FastMixerState
  defines "R \<equiv> set_bits (pm AND NOT (mTrackMask cur))"
    and "A \<equiv> set_bits (mTrackMask cur AND NOT pm)"
    and "M \<equiv> set_bits (mTrackMask cur AND pm)"
  shows "track_diff e cur pm w =
     w\<lparr>fastTrackNames := (if mixer w \<noteq> None
                           then (\<lambda>i. if i \<in> set A then getTrackName e i else fastTrackNames w i)
                           else fastTrackNames w),
       generations := (\<lambda>i. if i \<in> set R \<union> set A \<union> set M then mGeneration (mFastTracks cur i)
                            else generations w i),
       fastTracksGen := mFastTracksGen cur,
       dumps := (dumps w)(dumpState w :=
                  (dumps w (dumpState w))\<lparr>mNumTracks := of_nat (popcount (mTrackMask cur))\<rparr>),
       trace := trace w @ (if mixer w \<noteq> None
                           then removed_events w R @ added_events e cur A @ modified_events cur w M
                           else [])\<rparr>"
proof -
  define w1 where "w1 = fold (removed_body cur) R w"
  define w2 where "w2 = fold (added_body e cur) A w1"
  define w3 where "w3 = fold (modified_body cur) M w2"
  have td: "track_diff e cur pm w =
      upd_dump (\<lambda>d. d\<lparr>mNumTracks := of_nat (popcount (mTrackMask cur))\<rparr>)
        (w3\<lparr>fastTracksGen := mFastTracksGen cur\<rparr>)"
    by (simp add: track_diff_def Let_def for_each_bit_fold w1_def w2_def w3_def R_def A_def M_def)
  have e1: "w1 = w\<lparr>generations := (\<lambda>i. if i \<in> set R then mGeneration (mFastTracks cur i) else generations w i),
       trace := trace w @ (if mixer w \<noteq> None then removed_events w R else [])\<rparr>"
    unfolding w1_def by (rule fold_removed)
  have e2: "w2 = w1\<lparr>fastTrackNames := (if mixer w1 \<noteq> None
                           then (\<lambda>i. if i \<in> set A then getTrackName e i else fastTrackNames w1 i)
                           else fastTrackNames w1),
       generations := (\<lambda>i. if i \<in> set A then mGeneration (mFastTracks cur i) else generations w1 i),
       trace := trace w1 @ (if mixer w1 \<noteq> None then added_events e cur A else [])\<rparr>"
    unfolding w2_def by (rule fold_added)
  have e3: "w3 = w2\<lparr>generations := (\<lambda>i. if i \<in> set M then mGeneration (mFastTracks cur i) else generations w2 i),
       trace := trace w2 @ (if mixer w2 \<noteq> None then modified_events cur w2 M else [])\<rparr>"
    unfolding w3_def by (rule fold_modified) (simp add: M_def distinct_set_bits)
  have dis: "set R \<inter> set M = {}" "set A \<inter> set M = {}"
    unfolding R_def A_def M_def by (rule masks_disjoint(2), rule masks_disjoint(3))
  have m: "modified_events cur w2 M = modified_events cur w M"
    using dis by (intro modified_events_cong) (auto simp: e2 e1)
  show ?thesis
    unfolding td e3 m by (simp add: e2 e1 upd_dump_def fun_eq_iff)
qed

lemma volume_body_eq:
  "volume_body e cur i w = w\<lparr>trace := trace w @ volume_events e cur w [i]\<rparr>"
  by (simp add: volume_body_def emit_def Let_def volume_events_def split: option.splits)

lemma volume_events_trace [simp]:
  "volume_events e cur (w\<lparr>trace := t\<rparr>) xs = volume_events e cur w xs"
  by (simp add: volume_events_def cong: option.case_cong)

lemma fold_volume:
  "fold (volume_body e cur) xs w = w\<lparr>trace := trace w @ volume_events e cur w xs\<rparr>"
proof (induction xs arbitrary: w)
  case Nil
  show ?case by (simp add: volume_events_def)
next
  case (Cons x xs)
  have s: "volume_events e cur w (x # xs) = volume_events e cur w [x] @ volume_events e cur w xs"
    by (simp add: volume_events_def)
  have "fold (volume_body e cur) (x # xs) w = fold (volume_body e cur) xs (volume_body e cur x w)"
    by simp
  also have "\<dots> = (volume_body e cur x w)
      \<lparr>trace := trace (volume_body e cur x w) @ volume_events e cur (volume_body e cur x w) xs\<rparr>"
    by (rule Cons.IH)
  also have "\<dots> = w\<lparr>trace := trace w @ volume_events e cur w (x # xs)\<rparr>"
    unfolding s by (simp add: volume_body_eq)
  finally show ?case .
qed

lemma write_step_eq:
  assumes "has_WRITE command" "outputSink w = Some sink" "mixBuffer w = Some buf"
  shows "write_step e command frameCount w =
     w\<lparr>mixBuffer := Some (if mixBufferState w = UNDEFINED then memset_zero buf (frameCount * 2) else buf),
       mixBufferState := (if mixBufferState w = UNDEFINED then ZEROED else mixBufferState w),
       dumps := (dumps w)(dumpState w :=
          (if 0 \<le> sink_write e
           then (cur_dump w)\<lparr>mWriteSequence := mWriteSequence (cur_dump w) + 2,
              mFramesWritten := mFramesWritten (cur_dump w) + word_of_int (sink_write e)\<rparr>
           else (cur_dump w)\<lparr>mWriteSequence := mWriteSequence (cur_dump w) + 2,
              mWriteErrors := mWriteErrors (cur_dump w) + 1\<rparr>)),
       trace := trace w @ (if mixBufferState w = UNDEFINED then [Memset (frameCount * 2)] else [])
          @ [StoreWriteSequence (mWriteSequence (cur_dump w) + 1),
             SinkWrite sink
               (samples (if mixBufferState w = UNDEFINED then memset_zero buf (frameCount * 2)
                         else buf) (frameCount * 2)) frameCount,
             StoreWriteSequence (mWriteSequence (cur_dump w) + 2)]\<rparr>"
proof (cases "mixBufferState w = UNDEFINED")
  case True
  with assms show ?thesis
    apply (simp add: write_step_def emit_def upd_dump_def cur_dump_def)
    apply (intro conjI impI worker.equality; simp add: add.commute)
    done
next
  case False
  with assms show ?thesis
    apply (simp add: write_step_def emit_def upd_dump_def cur_dump_def)
    apply (intro conjI impI worker.equality; simp add: add.commute)
    done
qed

lemma rebind_sink_frame [simp]:
  "previous (rebind_sink e cur w) = previous w"
  "current (rebind_sink e cur w) = current w"
  "preIdle (rebind_sink e cur w) = preIdle w"
  "oldTs (rebind_sink e cur w) = oldTs w"
  "oldTsValid (rebind_sink e cur w) = oldTsValid w"
  "sleepNs (rebind_sink e cur w) = sleepNs w"
  "fastTrackNames (rebind_sink e cur w) = fastTrackNames w"
  "generations (rebind_sink e cur w) = generations w"
  "mixer (rebind_sink e cur w) = mixer w"
  "mixBuffer (rebind_sink e cur w) = mixBuffer w"
  "mixBufferState (rebind_sink e cur w) = mixBufferState w"
  "fastTracksGen (rebind_sink e cur w) = fastTracksGen w"
  "periodNs (rebind_sink e cur w) = periodNs w"
  "underrunNs (rebind_sink e cur w) = underrunNs w"
  "overrunNs (rebind_sink e cur w) = overrunNs w"
  "dumpState (rebind_sink e cur w) = dumpState w"
  "dumps (rebind_sink e cur w) = dumps w"
  "ignoreNextOverrun (rebind_sink e cur w) = ignoreNextOverrun w"
  "coldGen (rebind_sink e cur w) = coldGen w"
  by (simp_all add: rebind_sink_def Let_def split: option.splits)

lemma reconfigure_frame [simp]:
  "previous (reconfigure e cur n w) = previous w"
  "current (reconfigure e cur n w) = current w"
  "preIdle (reconfigure e cur n w) = preIdle w"
  "oldTs (reconfigure e cur n w) = oldTs w"
  "oldTsValid (reconfigure e cur n w) = oldTsValid w"
  "sleepNs (reconfigure e cur n w) = sleepNs w"
  "fastTrackNames (reconfigure e cur n w) = fastTrackNames w"
  "generations (reconfigure e cur n w) = generations w"
  "outputSink (reconfigure e cur n w) = outputSink w"
  "outputSinkGen (reconfigure e cur n w) = outputSinkGen w"
  "format (reconfigure e cur n w) = format w"
  "sampleRate (reconfigure e cur n w) = sampleRate w"
  "dumpState (reconfigure e cur n w) = dumpState w"
  "dumps (reconfigure e cur n w) = dumps w"
  "ignoreNextOverrun (reconfigure e cur n w) = ignoreNextOverrun w"
  "coldGen (reconfigure e cur n w) = coldGen w"
  by (simp_all add: reconfigure_def Let_def)

lemma track_diff_frame [simp]:
  "previous (track_diff e cur pm w) = previous w"
  "current (track_diff e cur pm w) = current w"
  "preIdle (track_diff e cur pm w) = preIdle w"
  "oldTs (track_diff e cur pm w) = oldTs w"
  "oldTsValid (track_diff e cur pm w) = oldTsValid w"
  "sleepNs (track_diff e cur pm w) = sleepNs w"
  "outputSink (track_diff e cur pm w) = outputSink w"
  "outputSinkGen (track_diff e cur pm w) = outputSinkGen w"
  "mixer (track_diff e cur pm w) = mixer w"
  "mixBuffer (track_diff e cur pm w) = mixBuffer w"
  "mixBufferState (track_diff e cur pm w) = mixBufferState w"
  "format (track_diff e cur pm w) = format w"
  "sampleRate (track_diff e cur pm w) = sampleRate w"
  "periodNs (track_diff e cur pm w) = periodNs w"
  "underrunNs (track_diff e cur pm w) = underrunNs w"
  "overrunNs (track_diff e cur pm w) = overrunNs w"
  "dumpState (track_diff e cur pm w) = dumpState w"
  "ignoreNextOverrun (track_diff e cur pm w) = ignoreNextOverrun w"
  "coldGen (track_diff e cur pm w) = coldGen w"
  by (simp_all add: track_diff_eq)

lemma handle_state_change_frame [simp]:
  "current (handle_state_change e w) = current w"
  "preIdle (handle_state_change e w) = preIdle w"
  "oldTs (handle_state_change e w) = oldTs w"
  "oldTsValid (handle_state_change e w) = oldTsValid w"
  "sleepNs (handle_state_change e w) = sleepNs w"
  "dumpState (handle_state_change e w) = dumpState w"
  "ignoreNextOverrun (handle_state_change e w) = ignoreNextOverrun w"
  "coldGen (handle_state_change e w) = coldGen w"
  by (simp_all add: handle_state_change_def Let_def)

lemma mix_step_frame [simp]:
  "previous (mix_step e c w) = previous w"
  "current (mix_step e c w) = current w"
  "preIdle (mix_step e c w) = preIdle w"
  "oldTs (mix_step e c w) = oldTs w"
  "oldTsValid (mix_step e c w) = oldTsValid w"
  "sleepNs (mix_step e c w) = sleepNs w"
  "fastTrackNames (mix_step e c w) = fastTrackNames w"
  "generations (mix_step e c w) = generations w"
  "outputSink (mix_step e c w) = outputSink w"
  "outputSinkGen (mix_step e c w) = outputSinkGen w"
  "mixer (mix_step e c w) = mixer w"
  "format (mix_step e c w) = format w"
  "sampleRate (mix_step e c w) = sampleRate w"
  "fastTracksGen (mix_step e c w) = fastTracksGen w"
  "periodNs (mix_step e c w) = periodNs w"
  "underrunNs (mix_step e c w) = underrunNs w"
  "overrunNs (mix_step e c w) = overrunNs w"
  "dumpState (mix_step e c w) = dumpState w"
  "dumps (mix_step e c w) = dumps w"
  "ignoreNextOverrun (mix_step e c w) = ignoreNextOverrun w"
  "coldGen (mix_step e c w) = coldGen w"
  by (simp_all add: mix_step_def Let_def for_each_bit_fold fold_volume)

lemma write_step_frame [simp]:
  "previous (write_step e c n w) = previous w"
  "current (write_step e c n w) = current w"
  "preIdle (write_step e c n w) = preIdle w"
  "oldTs (write_step e c n w) = oldTs w"
  "oldTsValid (write_step e c n w) = oldTsValid w"
  "sleepNs (write_step e c n w) = sleepNs w"
  "fastTrackNames (write_step e c n w) = fastTrackNames w"
  "generations (write_step e c n w) = generations w"
  "outputSink (write_step e c n w) = outputSink w"
  "outputSinkGen (write_step e c n w) = outputSinkGen w"
  "mixer (write_step e c n w) = mixer w"
  "format (write_step e c n w) = format w"
  "sampleRate (write_step e c n w) = sampleRate w"
  "fastTracksGen (write_step e c n w) = fastTracksGen w"
  "periodNs (write_step e c n w) = periodNs w"
  "underrunNs (write_step e c n w) = underrunNs w"
  "overrunNs (write_step e c n w) = overrunNs w"
  "dumpState (write_step e c n w) = dumpState w"
  "ignoreNextOverrun (write_step e c n w) = ignoreNextOverrun w"
  "coldGen (write_step e c n w) = coldGen w"
  by (cases "has_WRITE c \<and> outputSink w \<noteq> None \<and> mixBuffer w \<noteq> None";
      auto simp: write_step_skip write_step_eq)+

lemma classify_frame [simp]:
  "previous (classify sec nsec w) = previous w"
  "current (classify sec nsec w) = current w"
  "preIdle (classify sec nsec w) = preIdle w"
  "oldTs (classify sec nsec w) = oldTs w"
  "oldTsValid (classify sec nsec w) = oldTsValid w"
  "fastTrackNames (classify sec nsec w) = fastTrackNames w"
  "generations (classify sec nsec w) = generations w"
  "outputSink (classify sec nsec w) = outputSink w"
  "outputSinkGen (classify sec nsec w) = outputSinkGen w"
  "mixer (classify sec nsec w) = mixer w"
  "mixBuffer (classify sec nsec w) = mixBuffer w"
  "mixBufferState (classify sec nsec w) = mixBufferState w"
  "format (classify sec nsec w) = format w"
  "sampleRate (classify sec nsec w) = sampleRate w"
  "fastTracksGen (classify sec nsec w) = fastTracksGen w"
  "periodNs (classify sec nsec w) = periodNs w"
  "underrunNs (classify sec nsec w) = underrunNs w"
  "overrunNs (classify sec nsec w) = overrunNs w"
  "dumpState (classify sec nsec w) = dumpState w"
  "coldGen (classify sec nsec w) = coldGen w"
  "trace (classify sec nsec w) = trace w"
  by (simp_all add: classify_def Let_def)

lemma timing_frame [simp]:
  "previous (timing e w) = previous w"
  "current (timing e w) = current w"
  "preIdle (timing e w) = preIdle w"
  "fastTrackNames (timing e w) = fastTrackNames w"
  "generations (timing e w) = generations w"
  "outputSink (timing e w) = outputSink w"
  "outputSinkGen (timing e w) = outputSinkGen w"
  "mixer (timing e w) = mixer w"
  "mixBuffer (timing e w) = mixBuffer w"
  "mixBufferState (timing e w) = mixBufferState w"
  "format (timing e w) = format w"
  "sampleRate (timing e w) = sampleRate w"
  "fastTracksGen (timing e w) = fastTracksGen w"
  "periodNs (timing e w) = periodNs w"
  "underrunNs (timing e w) = underrunNs w"
  "overrunNs (timing e w) = overrunNs w"
  "dumpState (timing e w) = dumpState w"
  "coldGen (timing e w) = coldGen w"
  by (simp_all add: timing_def Let_def split: option.splits)

lemma work_frame [simp]:
  "current (work e c w) = current w"
  "preIdle (work e c w) = preIdle w"
  "dumpState (work e c w) = dumpState w"
  "coldGen (work e c w) = coldGen w"
  by (simp_all add: work_def Let_def)

lemma deref_heap: "heap e = heap e0 \<Longrightarrow> deref e w r = deref e0 w r"
  by (simp add: deref_def split: state_ref.splits)

lemma previous_handle_state_change [simp]:
  "previous (handle_state_change e w) = current w"
  by (simp add: handle_state_change_def Let_def)

lemma previous_work [simp]: "previous (work e c w) = current w"
  by (simp add: work_def Let_def)

lemma handle_state_change_same:
  "previous w = current w \<Longrightarrow> handle_state_change e w = w"
  by (simp add: handle_state_change_def Let_def)

lemma settled_init: "settled e worker_init"
  by (simp add: settled_def worker_init_def deref_def initial_def)

lemma cycle_settles:
  assumes c: "cycle e0 w0 = Continue w" and h: "heap e = heap e0"
  shows "settled e w"
proof -
  define c0 where "c0 = mCommand (deref e0 w0 (next_ref e0 w0))"
  have sw: "deref e0 (at_switch e0 w0) (next_ref e0 w0) = deref e0 w0 (next_ref e0 w0)"
    by (rule deref_at_switch_current)
  have key: "current w = next_ref e0 w0 \<and> preIdle w = preIdle (at_switch e0 w0)
        \<and> (c0 = COLD_IDLE \<longrightarrow> coldGen w = mColdGen (deref e0 w0 (next_ref e0 w0)))
        \<and> (c0 \<in> {MIX, WRITE, MIX_WRITE} \<longrightarrow> previous w = current w)
        \<and> c0 \<noteq> EXIT"
    using c unfolding cycle_at_switch c0_def[symmetric]
    by (cases c0) (auto simp: cold_idle_def sw Let_def split: if_splits option.splits)
  have d: "deref e w (current w) = deref e0 w0 (next_ref e0 w0)"
  proof -
    have "deref e w (current w) = deref e0 w (next_ref e0 w0)"
      using key by (simp add: deref_heap[OF h])
    also have "\<dots> = deref e0 (at_switch e0 w0) (next_ref e0 w0)"
      using key by (intro deref_same_preIdle) simp
    finally show ?thesis by (simp add: sw)
  qed
  show ?thesis
    using key unfolding settled_def d c0_def[symmetric] by (cases c0) auto
qed

lemma at_switch_none:
  "poll e = None \<Longrightarrow>
     at_switch e w =
       upd_dump (\<lambda>d. d\<lparr>mCommand_dump := mCommand (deref e w (current w))\<rparr>)
         ((do_sleep w)\<lparr>sleepNs := FAST_DEFAULT_NS\<rparr>)"
  by (simp add: at_switch_def next_ref_def Let_def)

lemma nothing_new_cycle:
  assumes none: "poll e = None" and s: "settled e w"
  shows "\<exists>w'. cycle e w = Continue w'
      \<and> current w' = current w \<and> previous w' = previous w \<and> dumpState w' = dumpState w
      \<and> fastTracksGen w' = fastTracksGen w \<and> outputSinkGen w' = outputSinkGen w
      \<and> coldGen w' = coldGen w \<and> generations w' = generations w
      \<and> fastTrackNames w' = fastTrackNames w
      \<and> (mCommand (deref e w (current w)) \<in> {INITIAL, HOT_IDLE, COLD_IDLE} \<longrightarrow>
            w' = (at_switch e w)\<lparr>sleepNs := FAST_HOT_IDLE_NS\<rparr>)
      \<and> (mCommand (deref e w (current w)) \<in> {MIX, WRITE, MIX_WRITE} \<longrightarrow>
            w' = timing e
                   (write_step e (mCommand (deref e w (current w)))
                      (mFrameCount (deref e w (current w)))
                      (mix_step e (mCommand (deref e w (current w))) (at_switch e w))))"
proof -
  define c where "c = mCommand (deref e w (current w))"
  have n: "next_ref e w = current w" using none by (simp add: next_ref_def)
  have sw: "deref e (at_switch e w) (current w) = deref e w (current w)"
    using deref_at_switch_current[of e w] by (simp add: n)
  have f: "previous (at_switch e w) = previous w" "dumpState (at_switch e w) = dumpState w"
    "current (at_switch e w) = current w"
    using at_switch_same[OF n] n by simp_all
  have wk: "work e c' (at_switch e w) =
      timing e (write_step e c' (mFrameCount (deref e w (current w))) (mix_step e c' (at_switch e w)))"
    if "previous w = current w" for c'
  proof -
    have "handle_state_change e (at_switch e w) = at_switch e w"
      using that by (intro handle_state_change_same) (simp add: f n)
    then show ?thesis by (simp add: work_def Let_def n sw)
  qed
  show ?thesis
    using s unfolding cycle_at_switch n settled_def c_def[symmetric]
    by (cases c) (auto simp: n f sw cold_idle_def wk Let_def)
qed

lemma initial_cycle:
  assumes "poll e = None" "current w = InitialRef"
  shows "cycle e w = Continue ((at_switch e w)\<lparr>sleepNs := FAST_HOT_IDLE_NS\<rparr>)"
proof -
  have "next_ref e w = InitialRef" using assms by (simp add: next_ref_def)
  then have "mCommand (deref e w (next_ref e w)) = INITIAL"
    by (simp add: deref_def initial_def)
  then show ?thesis by (simp add: cycle_at_switch)
qed

lemma at_switch_none_fields:
  assumes "poll e = None"
  shows "previous (at_switch e w) = previous w" "current (at_switch e w) = current w"
  using at_switch_same[of e w] assms by (simp_all add: next_ref_def)

lemma run_initial_idle:
  assumes "\<forall>e\<in>set es. poll e = None" "current w = InitialRef" "sleepNs w = FAST_HOT_IDLE_NS"
  shows "\<exists>w'. run es w = Continue w' \<and> current w' = InitialRef \<and> previous w' = previous w
           \<and> mixer w' = mixer w \<and> mixBuffer w' = mixBuffer w \<and> outputSink w' = outputSink w
           \<and> sleepNs w' = FAST_HOT_IDLE_NS
           \<and> trace w' = trace w @ replicate (length es) (Nanosleep FAST_HOT_IDLE_NS)"
  using assms
proof (induction es arbitrary: w)
  case Nil
  then show ?case by simp
next
  case (Cons e es)
  let ?w1 = "(at_switch e w)\<lparr>sleepNs := FAST_HOT_IDLE_NS\<rparr>"
  from Cons.prems have p: "poll e = None" and rest: "\<forall>e\<in>set es. poll e = None" by simp_all
  have c: "cycle e w = Continue ?w1" using p Cons.prems(2) by (rule initial_cycle)
  have f: "current ?w1 = InitialRef" "previous ?w1 = previous w" "sleepNs ?w1 = FAST_HOT_IDLE_NS"
    "mixer ?w1 = mixer w" "mixBuffer ?w1 = mixBuffer w" "outputSink ?w1 = outputSink w"
    "trace ?w1 = trace w @ [Nanosleep FAST_HOT_IDLE_NS]"
    using Cons.prems(2,3) at_switch_none_fields[OF p, of w]
    by (simp_all add: do_sleep_def FAST_HOT_IDLE_NS_def)
  from Cons.IH[OF rest f(1) f(3)] obtain w' where w': "run es ?w1 = Continue w'"
    "current w' = InitialRef" "previous w' = previous ?w1" "mixer w' = mixer ?w1"
    "mixBuffer w' = mixBuffer ?w1" "outputSink w' = outputSink ?w1" "sleepNs w' = FAST_HOT_IDLE_NS"
    "trace w' = trace ?w1 @ replicate (length es) (Nanosleep FAST_HOT_IDLE_NS)"
    by blast
  have "run (e # es) w = Continue w'" using c w'(1) by simp
  moreover have "trace w' = trace w @ replicate (length (e # es)) (Nanosleep FAST_HOT_IDLE_NS)"
    using w'(8) f(7) by simp
  ultimately show ?case using w' f by auto
qed

lemma run_before_first_state:
  assumes "\<forall>e\<in>set es. poll e = None"
  shows "\<exists>w'. run es worker_init = Continue w' \<and> current w' = InitialRef \<and> previous w' = InitialRef
           \<and> mixer w' = None \<and> mixBuffer w' = None \<and> outputSink w' = None
           \<and> trace w' = replicate (length es - 1) (Nanosleep FAST_HOT_IDLE_NS)"
proof (cases es)
  case Nil
  then show ?thesis by (simp add: worker_init_def)
next
  case (Cons e es')
  let ?w1 = "(at_switch e worker_init)\<lparr>sleepNs := FAST_HOT_IDLE_NS\<rparr>"
  from assms Cons have p: "poll e = None" and rest: "\<forall>e\<in>set es'. poll e = None" by simp_all
  have c: "cycle e worker_init = Continue ?w1"
    using p by (rule initial_cycle) (simp add: worker_init_def)
  have f: "current ?w1 = InitialRef" "previous ?w1 = InitialRef" "sleepNs ?w1 = FAST_HOT_IDLE_NS"
    "mixer ?w1 = None" "mixBuffer ?w1 = None" "outputSink ?w1 = None" "trace ?w1 = []"
    using at_switch_none_fields[OF p, of worker_init]
    by (simp_all add: do_sleep_def worker_init_def)
  from run_initial_idle[OF rest f(1) f(3)] obtain w' where w': "run es' ?w1 = Continue w'"
    "current w' = InitialRef" "previous w' = previous ?w1" "mixer w' = mixer ?w1"
    "mixBuffer w' = mixBuffer ?w1" "outputSink w' = outputSink ?w1"
    "trace w' = trace ?w1 @ replicate (length es') (Nanosleep FAST_HOT_IDLE_NS)"
    by blast
  have "run es worker_init = Continue w'" using c w'(1) Cons by simp
  then show ?thesis using w' f Cons by auto
qed

subsection \<open>Evaluation of cycles on concrete inputs\<close>

lemmas step_defs = cycle_def do_sleep_def next_ref_def deref_def state_change_def upd_dump_def
  work_def handle_state_change_def rebind_sink_def reconfigure_def delete_engine_def emit_def
  track_diff_eq mix_step_def for_each_bit_fold fold_volume volume_events_def
  write_step_def timing_def classify_def cur_dump_def popcount_def
  FAST_DEFAULT_NS_def FAST_HOT_IDLE_NS_def cold_idle_def
  removed_events_def added_events_def modified_events_def to_long_def

lemma cx6_cycle1: "cycle (cx6_env 0) worker_init = Continue cx6_w1"
  apply (simp add: cx6_env_def cx6_w1_def sink_env_def sink_state_def worker_init_def initial_def
      FastMixerDumpState_init_def step_defs)
  apply (simp add: Let_def)
  done


lemma cx6_cycle2: "cycle (cx6_env 8000000) cx6_w1 = Continue cx6_w2"
  apply (simp add: cx6_env_def cx6_w2_def cx6_w1_def sink_env_def sink_state_def worker_init_def initial_def
      FastMixerDumpState_init_def step_defs)
  apply (simp add: Let_def fun_eq_iff)
  done

lemma cx6_cycle3: "cycle (cx6_env 12000000) cx6_w2 = Continue cx6_w3"
  apply (simp add: cx6_env_def cx6_w3_def cx6_w2_def cx6_w1_def sink_env_def sink_state_def worker_init_def initial_def
      FastMixerDumpState_init_def step_defs)
  apply (simp add: Let_def fun_eq_iff)
  done

lemma cx6_cycle4: "cycle (cx6_env 12500000) cx6_w3 = Continue cx6_w4"
  apply (simp add: cx6_env_def cx6_w4_def cx6_w3_def cx6_w2_def cx6_w1_def sink_env_def sink_state_def worker_init_def initial_def
      FastMixerDumpState_init_def step_defs)
  apply (simp add: Let_def fun_eq_iff)
  done

lemma samples_0 [simp]: "samples b 0 = []"
  by (simp add: samples_def)

lemma cx9_cycle1: "cycle (cx9_env INITIAL 10) worker_init = Continue cx9_w1"
  apply (simp add: cx9_env_def cx9_w1_def sink_state_def worker_init_def initial_def
      FastMixerDumpState_init_def step_defs)
  apply (simp add: Let_def fun_eq_iff)
  done



lemma cx9_cycle4: "cycle (cx9_env INITIAL 30) cx9_w1 = Continue cx9_w4"
  apply (simp add: cx9_env_def cx9_w4_def cx9_w1_def sink_state_def worker_init_def initial_def
      FastMixerDumpState_init_def step_defs)
  apply (simp add: Let_def fun_eq_iff)
  done







subsection \<open>Timing constants (C5)\<close>

lemma to_long_id:
  "- 2147483648 \<le> x \<Longrightarrow> x < 2147483648 \<Longrightarrow> to_long x = x"
  by (simp add: to_long_def)

lemma reconfigure_constants:
  assumes "frameCount > 0" and "sampleRate w > 0"
  shows "periodNs (reconfigure e cur frameCount w) =
           to_long ((int frameCount * 1000000000) div int (sampleRate w))"
    and "underrunNs (reconfigure e cur frameCount w) =
           to_long ((int frameCount * 1750000000) div int (sampleRate w))"
    and "overrunNs (reconfigure e cur frameCount w) =
           to_long ((int frameCount * 250000000) div int (sampleRate w))"
proof -
  have sr: "sampleRate (delete_engine w) = sampleRate w"
    by (simp add: delete_engine_def emit_def Let_def)
  show "periodNs (reconfigure e cur frameCount w) =
           to_long ((int frameCount * 1000000000) div int (sampleRate w))"
    and "underrunNs (reconfigure e cur frameCount w) =
           to_long ((int frameCount * 1750000000) div int (sampleRate w))"
    and "overrunNs (reconfigure e cur frameCount w) =
           to_long ((int frameCount * 250000000) div int (sampleRate w))"
    using assms by (simp_all add: reconfigure_def sr emit_def Let_def)
qed

text \<open>C5, as the code has it. On reconfiguration with a positive frame count and a
  positive sample rate, the three constants are the exact period
  \<open>frameCount * 1e9 / sampleRate\<close>, 1.75 times it and 0.25 times it, each rounded down to
  whole nanoseconds on its own, provided the largest of them, the underrun threshold,
  fits the 32-bit \<^verbatim>\<open>long\<close> that stores it. For 192 frames at 48000 Hz they are
  4000000, 7000000 and 1000000.\<close>

theorem C5_timing_constants:
  assumes "frameCount > 0" and "sampleRate w > 0"
    and fits: "\<lfloor>1.75 * (real frameCount * 1000000000 / real (sampleRate w))\<rfloor> < 2147483648"
  shows "periodNs (reconfigure e cur frameCount w) =
           \<lfloor>real frameCount * 1000000000 / real (sampleRate w)\<rfloor>
       \<and> underrunNs (reconfigure e cur frameCount w) =
           \<lfloor>1.75 * (real frameCount * 1000000000 / real (sampleRate w))\<rfloor>
       \<and> overrunNs (reconfigure e cur frameCount w) =
           \<lfloor>0.25 * (real frameCount * 1000000000 / real (sampleRate w))\<rfloor>
       \<and> (frameCount = 192 \<and> sampleRate w = 48000 \<longrightarrow>
             periodNs (reconfigure e cur frameCount w) = 4000000
           \<and> underrunNs (reconfigure e cur frameCount w) = 7000000
           \<and> overrunNs (reconfigure e cur frameCount w) = 1000000)"
proof -
  let ?w = "reconfigure e cur frameCount w"
  let ?n = "int frameCount" and ?r = "int (sampleRate w)"
  have fl: "\<lfloor>real_of_int a / real_of_int b\<rfloor> = a div b" for a b :: int
    by (rule floor_divide_of_int_eq)
  have "real frameCount * 1000000000 / real (sampleRate w)
          = real_of_int (?n * 1000000000) / real_of_int ?r"
    by simp
  then have f1: "\<lfloor>real frameCount * 1000000000 / real (sampleRate w)\<rfloor> = (?n * 1000000000) div ?r"
    by (simp only: fl)
  have "1.75 * (real frameCount * 1000000000 / real (sampleRate w))
          = real_of_int (?n * 1750000000) / real_of_int ?r"
    by simp
  then have f2: "\<lfloor>1.75 * (real frameCount * 1000000000 / real (sampleRate w))\<rfloor>
                 = (?n * 1750000000) div ?r"
    by (simp only: fl)
  have "0.25 * (real frameCount * 1000000000 / real (sampleRate w))
          = real_of_int (?n * 250000000) / real_of_int ?r"
    by simp
  then have f3: "\<lfloor>0.25 * (real frameCount * 1000000000 / real (sampleRate w))\<rfloor>
                 = (?n * 250000000) div ?r"
    by (simp only: fl)
  have r: "0 < ?r" using assms(2) by simp
  have u: "(?n * 1750000000) div ?r < 2147483648"
    using fits by (simp only: f2)
  have mono: "(?n * 250000000) div ?r \<le> (?n * 1000000000) div ?r"
    "(?n * 1000000000) div ?r \<le> (?n * 1750000000) div ?r"
    using r by (intro zdiv_mono1; simp)+
  have nonneg: "0 \<le> (?n * 250000000) div ?r"
    using r by (simp add: pos_imp_zdiv_nonneg_iff)
  have p: "periodNs ?w = (?n * 1000000000) div ?r"
    unfolding reconfigure_constants(1)[OF assms(1,2)]
    using u mono nonneg by (intro to_long_id) linarith+
  have un: "underrunNs ?w = (?n * 1750000000) div ?r"
    unfolding reconfigure_constants(2)[OF assms(1,2)]
    using u mono nonneg by (intro to_long_id) linarith+
  have ov: "overrunNs ?w = (?n * 250000000) div ?r"
    unfolding reconfigure_constants(3)[OF assms(1,2)]
    using u mono nonneg by (intro to_long_id) linarith+
  have 4: "frameCount = 192 \<and> sampleRate w = 48000 \<longrightarrow>
             periodNs ?w = 4000000 \<and> underrunNs ?w = 7000000 \<and> overrunNs ?w = 1000000"
    using p un ov by auto
  from p un ov 4 show ?thesis by (simp only: f1 f2 f3)
qed

text \<open>C5 at 192 frames and 48000 Hz.\<close>

theorem C5_witness:
  "periodNs (reconfigure (sink_env (sink_state MIX_WRITE 192) 48000 None)
       (sink_state MIX_WRITE 192) 192 (worker_init\<lparr>sampleRate := 48000\<rparr>)) = 4000000
 \<and> underrunNs (reconfigure (sink_env (sink_state MIX_WRITE 192) 48000 None)
       (sink_state MIX_WRITE 192) 192 (worker_init\<lparr>sampleRate := 48000\<rparr>)) = 7000000
 \<and> overrunNs (reconfigure (sink_env (sink_state MIX_WRITE 192) 48000 None)
       (sink_state MIX_WRITE 192) 192 (worker_init\<lparr>sampleRate := 48000\<rparr>)) = 1000000"
  using C5_timing_constants [of 192 "worker_init\<lparr>sampleRate := 48000\<rparr>"
      "sink_env (sink_state MIX_WRITE 192) 48000 None" "sink_state MIX_WRITE 192"]
  by (simp add: worker_init_def)

text \<open>C5 as stated fails: at 192 frames and 44100 Hz the stored period is 4353741 ns
  and the stored underrun threshold is 7619047 ns, which is not 1.75 times 4353741. The
  values fit the \<^verbatim>\<open>long\<close> here; at 65536 frames and 44100 Hz the underrun threshold
  2600634920 does not, and the value stored is negative.\<close>

theorem C5_counterexample:
  "periodNs (reconfigure (sink_env (sink_state MIX_WRITE 192) 44100 None)
        (sink_state MIX_WRITE 192) 192 (worker_init\<lparr>sampleRate := 44100\<rparr>)) = 4353741
 \<and> underrunNs (reconfigure (sink_env (sink_state MIX_WRITE 192) 44100 None)
        (sink_state MIX_WRITE 192) 192 (worker_init\<lparr>sampleRate := 44100\<rparr>)) = 7619047
 \<and> real_of_int (underrunNs (reconfigure (sink_env (sink_state MIX_WRITE 192) 44100 None)
        (sink_state MIX_WRITE 192) 192 (worker_init\<lparr>sampleRate := 44100\<rparr>)))
   \<noteq> 1.75 * real_of_int (periodNs (reconfigure (sink_env (sink_state MIX_WRITE 192) 44100 None)
        (sink_state MIX_WRITE 192) 192 (worker_init\<lparr>sampleRate := 44100\<rparr>)))
 \<and> underrunNs (reconfigure (sink_env (sink_state MIX_WRITE 65536) 44100 None)
        (sink_state MIX_WRITE 65536) 65536 (worker_init\<lparr>sampleRate := 44100\<rparr>)) = - 1694332376"
  by (simp add: reconfigure_def delete_engine_def worker_init_def emit_def Let_def to_long_def)

subsection \<open>Classification of the measured interval (C3)\<close>

text \<open>What lines 345-371 do with a measured interval, in terms of the interval: one
  second or more, or more than \<open>underrunNs\<close>, is an underrun; otherwise less than
  \<open>overrunNs\<close> is an overrun; otherwise the cycle is nominal.\<close>

lemma timing_classification:
  assumes valid: "oldTsValid w" and clk: "clock e = Some newTs"
    and norm: "normalised (oldTs w)" "normalised newTs"
    and mono: "0 \<le> interval_ns (oldTs w) newTs"
  shows "(1000000000 \<le> interval_ns (oldTs w) newTs \<or> underrunNs w < interval_ns (oldTs w) newTs \<longrightarrow>
            mUnderruns (cur_dump (timing e w)) = mUnderruns (cur_dump w) + 1
          \<and> mOverruns (cur_dump (timing e w)) = mOverruns (cur_dump w)
          \<and> sleepNs (timing e w) = - 1 \<and> ignoreNextOverrun (timing e w))
       \<and> (interval_ns (oldTs w) newTs < 1000000000 \<and> interval_ns (oldTs w) newTs \<le> underrunNs w
            \<and> interval_ns (oldTs w) newTs < overrunNs w \<longrightarrow>
            mUnderruns (cur_dump (timing e w)) = mUnderruns (cur_dump w)
          \<and> mOverruns (cur_dump (timing e w)) =
              (if ignoreNextOverrun w then mOverruns (cur_dump w) else mOverruns (cur_dump w) + 1)
          \<and> \<not> ignoreNextOverrun (timing e w)
          \<and> sleepNs (timing e w) = periodNs w - overrunNs w)
       \<and> (interval_ns (oldTs w) newTs < 1000000000 \<and> interval_ns (oldTs w) newTs \<le> underrunNs w
            \<and> overrunNs w \<le> interval_ns (oldTs w) newTs \<longrightarrow>
            mUnderruns (cur_dump (timing e w)) = mUnderruns (cur_dump w)
          \<and> mOverruns (cur_dump (timing e w)) = mOverruns (cur_dump w)
          \<and> sleepNs (timing e w) = - 1 \<and> \<not> ignoreNextOverrun (timing e w))"
proof -
  define nsec0 where "nsec0 = tv_nsec newTs - tv_nsec (oldTs w)"
  define sec where "sec = (if nsec0 < 0 then tv_sec newTs - tv_sec (oldTs w) - 1
                           else tv_sec newTs - tv_sec (oldTs w))"
  define nsec where "nsec = (if nsec0 < 0 then nsec0 + 1000000000 else nsec0)"
  have d: "interval_ns (oldTs w) newTs = sec * 1000000000 + nsec"
    and n0: "0 \<le> nsec" and n1: "nsec < 1000000000" and s0: "0 \<le> sec"
    using norm mono
    by (auto simp: interval_ns_def normalised_def sec_def nsec_def nsec0_def split: if_splits)
  have t: "timing e w = (classify sec nsec (emit [ClockGettime] w))\<lparr>oldTs := newTs\<rparr>"
    using valid clk
    by (simp add: timing_def Let_def emit_def sec_def nsec_def nsec0_def)
  have under: "(0 < sec \<or> underrunNs w < nsec)
     \<longleftrightarrow> (1000000000 \<le> interval_ns (oldTs w) newTs \<or> underrunNs w < interval_ns (oldTs w) newTs)"
    using d n0 n1 s0 by (cases "sec = 0") auto
  have over: "\<not> (0 < sec \<or> underrunNs w < nsec) \<Longrightarrow> nsec = interval_ns (oldTs w) newTs"
    using d s0 by auto
  show ?thesis
  proof (cases "0 < sec \<or> underrunNs w < nsec")
    case True
    with under show ?thesis
      by (auto simp: t classify_def emit_def upd_dump_def cur_dump_def)
  next
    case False
    with under over[OF False] show ?thesis
      by (auto simp: t classify_def emit_def upd_dump_def cur_dump_def Let_def)
  qed
qed

text \<open>C3. With a valid previous timestamp and a successful clock read (timestamps as
  \<^verbatim>\<open>clock_gettime(CLOCK_MONOTONIC)\<close> returns them, and an overrun threshold of at most one
  second, which every period that the loop can sleep satisfies), the interval is treated
  as follows: above \<open>underrunNs\<close> the underrun counter is incremented, the next sleep is
  \<open>-1\<close> and \<open>ignoreNextOverrun\<close> is set; else below \<open>overrunNs\<close> the overrun counter is
  incremented unless the suppression is set, in which case it is cleared, and the next
  sleep is \<open>periodNs - overrunNs\<close>; otherwise the next sleep is \<open>-1\<close>.\<close>

theorem C3_interval_classification:
  assumes valid: "oldTsValid w" and clk: "clock e = Some newTs"
    and norm: "normalised (oldTs w)" "normalised newTs"
    and mono: "0 \<le> interval_ns (oldTs w) newTs"
    and short: "overrunNs w \<le> 1000000000"
  shows "(underrunNs w < interval_ns (oldTs w) newTs \<longrightarrow>
            mUnderruns (cur_dump (timing e w)) = mUnderruns (cur_dump w) + 1
          \<and> sleepNs (timing e w) = - 1 \<and> ignoreNextOverrun (timing e w))
       \<and> (\<not> underrunNs w < interval_ns (oldTs w) newTs
            \<and> interval_ns (oldTs w) newTs < overrunNs w \<longrightarrow>
            mOverruns (cur_dump (timing e w)) =
              (if ignoreNextOverrun w then mOverruns (cur_dump w) else mOverruns (cur_dump w) + 1)
          \<and> (ignoreNextOverrun w \<longrightarrow> \<not> ignoreNextOverrun (timing e w))
          \<and> sleepNs (timing e w) = periodNs w - overrunNs w)
       \<and> (\<not> underrunNs w < interval_ns (oldTs w) newTs
            \<and> \<not> interval_ns (oldTs w) newTs < overrunNs w \<longrightarrow>
            sleepNs (timing e w) = - 1)"
  using timing_classification[OF valid clk norm mono] short
  by (cases "1000000000 \<le> interval_ns (oldTs w) newTs") auto

text \<open>C3 at the constants of 192 frames at 48000 Hz: an interval of 8 ms (underrun),
  of 0.5 ms without and with suppression (overrun), and of 4 ms (nominal).\<close>

theorem C3_witness:
  "(mUnderruns (cur_dump (timing (clock_env (Some \<lparr>tv_sec = 0, tv_nsec = 8000000\<rparr>)) (timing_worker False))) = 1
    \<and> sleepNs (timing (clock_env (Some \<lparr>tv_sec = 0, tv_nsec = 8000000\<rparr>)) (timing_worker False)) = - 1
    \<and> ignoreNextOverrun (timing (clock_env (Some \<lparr>tv_sec = 0, tv_nsec = 8000000\<rparr>)) (timing_worker False)))
 \<and> (mOverruns (cur_dump (timing (clock_env (Some \<lparr>tv_sec = 0, tv_nsec = 500000\<rparr>)) (timing_worker False))) = 1
    \<and> sleepNs (timing (clock_env (Some \<lparr>tv_sec = 0, tv_nsec = 500000\<rparr>)) (timing_worker False)) = 3000000)
 \<and> (mOverruns (cur_dump (timing (clock_env (Some \<lparr>tv_sec = 0, tv_nsec = 500000\<rparr>)) (timing_worker True))) = 0
    \<and> \<not> ignoreNextOverrun (timing (clock_env (Some \<lparr>tv_sec = 0, tv_nsec = 500000\<rparr>)) (timing_worker True)))
 \<and> sleepNs (timing (clock_env (Some \<lparr>tv_sec = 0, tv_nsec = 4000000\<rparr>)) (timing_worker False)) = - 1"
  using C3_interval_classification [of "timing_worker False"
          "clock_env (Some \<lparr>tv_sec = 0, tv_nsec = 8000000\<rparr>)" "\<lparr>tv_sec = 0, tv_nsec = 8000000\<rparr>"]
        C3_interval_classification [of "timing_worker False"
          "clock_env (Some \<lparr>tv_sec = 0, tv_nsec = 500000\<rparr>)" "\<lparr>tv_sec = 0, tv_nsec = 500000\<rparr>"]
        C3_interval_classification [of "timing_worker True"
          "clock_env (Some \<lparr>tv_sec = 0, tv_nsec = 500000\<rparr>)" "\<lparr>tv_sec = 0, tv_nsec = 500000\<rparr>"]
        C3_interval_classification [of "timing_worker False"
          "clock_env (Some \<lparr>tv_sec = 0, tv_nsec = 4000000\<rparr>)" "\<lparr>tv_sec = 0, tv_nsec = 4000000\<rparr>"]
  by (simp add: timing_worker_def clock_env_def worker_init_def interval_ns_def normalised_def
        cur_dump_def FastMixerDumpState_init_def)

subsection \<open>Cold idle (C1)\<close>

lemma cold_cycle:
  assumes cmd: "mCommand (deref e w (next_ref e w)) = COLD_IDLE"
    and addr: "mColdFutexAddr (deref e w (next_ref e w)) = Some a"
  shows "\<exists>w'. cycle e w = Continue w'
           \<and> trace w' = trace (do_sleep w) @
                (if mColdGen (deref e w (next_ref e w)) \<noteq> coldGen w
                 then AtomicDec a # (if futex_old e a \<le> 0 then [FutexWait a (futex_old e a - 1)] else [])
                 else [])
           \<and> coldGen w' = mColdGen (deref e w (next_ref e w))
           \<and> sleepNs w' = (if mColdGen (deref e w (next_ref e w)) \<noteq> coldGen w
                          then - 1 else FAST_HOT_IDLE_NS)"
proof -
  have c: "cycle e w = cold_idle e (at_switch e w)"
    using cmd by (simp add: cycle_at_switch)
  show ?thesis
    using addr by (simp add: c cold_idle_def deref_at_switch_current Let_def)
qed

lemma cold_cycle_crash:
  assumes cmd: "mCommand (deref e w (next_ref e w)) = COLD_IDLE"
    and addr: "mColdFutexAddr (deref e w (next_ref e w)) = None"
    and new: "mColdGen (deref e w (next_ref e w)) \<noteq> coldGen w"
  shows "cycle e w = Crashed"
proof -
  have c: "cycle e w = cold_idle e (at_switch e w)"
    using cmd by (simp add: cycle_at_switch)
  show ?thesis
    using addr new by (simp add: c cold_idle_def deref_at_switch_current Let_def)
qed

text \<open>No step of a working cycle performs an atomic or a futex operation.\<close>

lemma quiet_futex_track_events:
  "filter is_futex_op (removed_events w xs) = []"
  "filter is_futex_op (added_events e cur xs) = []"
  "filter is_futex_op (modified_events cur w xs) = []"
  "filter is_futex_op (volume_events e cur w xs) = []"
  by (auto simp: removed_events_def added_events_def modified_events_def volume_events_def
      filter_empty_conv split: if_splits option.splits)

lemma rebind_sink_no_futex:
  "\<exists>evs. trace (rebind_sink e cur w) = trace w @ evs \<and> filter is_futex_op evs = []"
  by (auto simp: rebind_sink_def Let_def split: option.splits)

lemma reconfigure_no_futex:
  "\<exists>evs. trace (reconfigure e cur n w) = trace w @ evs \<and> filter is_futex_op evs = []"
  by (auto simp: reconfigure_def delete_engine_def Let_def emit_def)

lemma track_diff_no_futex:
  "\<exists>evs. trace (track_diff e cur pm w) = trace w @ evs \<and> filter is_futex_op evs = []"
  using quiet_futex_track_events by (auto simp: track_diff_eq)

lemma no_futex_append:
  assumes "\<exists>evs. trace w1 = trace w @ evs \<and> filter is_futex_op evs = []"
    and "\<exists>evs. trace w2 = trace w1 @ evs \<and> filter is_futex_op evs = []"
  shows "\<exists>evs. trace w2 = trace w @ evs \<and> filter is_futex_op evs = []"
proof -
  from assms obtain evs1 evs2 where
    "trace w1 = trace w @ evs1" "filter is_futex_op evs1 = []"
    "trace w2 = trace w1 @ evs2" "filter is_futex_op evs2 = []" by blast
  then have "trace w2 = trace w @ (evs1 @ evs2)" "filter is_futex_op (evs1 @ evs2) = []"
    by simp_all
  then show ?thesis by blast
qed

lemma no_futex_refl:
  "\<exists>evs. trace w = trace w @ evs \<and> filter is_futex_op evs = []"
  by simp

lemma handle_state_change_no_futex:
  "\<exists>evs. trace (handle_state_change e w) = trace w @ evs \<and> filter is_futex_op evs = []"
proof (cases "current w = previous w")
  case True
  then show ?thesis by (simp add: handle_state_change_same)
next
  case False
  define cur where "cur = deref e w (current w)"
  define w1 where "w1 = rebind_sink e cur w"
  define reconf where "reconf = (format w1 \<noteq> format w
      \<or> mFrameCount cur \<noteq> mFrameCount (deref e w (previous w)))"
  define w2 where "w2 = (if reconf then reconfigure e cur (mFrameCount cur) w1 else w1)"
  define pm where "pm = (if reconf then 0 else mTrackMask (deref e w (previous w)))"
  define w3 where "w3 = (if mFastTracksGen cur \<noteq> fastTracksGen w2 then track_diff e cur pm w2 else w2)"
  have h: "handle_state_change e w = w3\<lparr>previous := current w3\<rparr>"
    using False
    by (simp add: handle_state_change_def Let_def cur_def w1_def reconf_def w2_def pm_def w3_def)
  have 1: "\<exists>evs. trace w1 = trace w @ evs \<and> filter is_futex_op evs = []"
    unfolding w1_def by (rule rebind_sink_no_futex)
  have 2: "\<exists>evs. trace w2 = trace w1 @ evs \<and> filter is_futex_op evs = []"
    unfolding w2_def using reconfigure_no_futex[of e cur "mFrameCount cur" w1] by simp
  have 3: "\<exists>evs. trace w3 = trace w2 @ evs \<and> filter is_futex_op evs = []"
    unfolding w3_def using track_diff_no_futex[of e cur pm w2] by simp
  have "\<exists>evs. trace w3 = trace w @ evs \<and> filter is_futex_op evs = []"
    using no_futex_append[OF 1 2] 3 by (rule no_futex_append)
  then show ?thesis by (simp add: h)
qed

lemma mix_step_no_futex:
  "\<exists>evs. trace (mix_step e c w) = trace w @ evs \<and> filter is_futex_op evs = []"
  using quiet_futex_track_events(4)
  by (simp add: mix_step_def Let_def for_each_bit_fold fold_volume)

lemma write_step_no_futex:
  "\<exists>evs. trace (write_step e c n w) = trace w @ evs \<and> filter is_futex_op evs = []"
proof (cases "has_WRITE c \<and> outputSink w \<noteq> None \<and> mixBuffer w \<noteq> None")
  case True
  then obtain s b where "has_WRITE c" "outputSink w = Some s" "mixBuffer w = Some b" by auto
  then show ?thesis by (simp add: write_step_trace)
next
  case False
  then have "write_step e c n w = w" by (intro write_step_skip) auto
  then show ?thesis by simp
qed

lemma timing_no_futex:
  "\<exists>evs. trace (timing e w) = trace w @ evs \<and> filter is_futex_op evs = []"
  by (simp add: timing_def Let_def split: option.splits)

lemma work_no_futex:
  "\<exists>evs. trace (work e c w) = trace w @ evs \<and> filter is_futex_op evs = []"
  unfolding work_def Let_def
  by (intro no_futex_append[OF no_futex_append[OF no_futex_append[OF
          handle_state_change_no_futex mix_step_no_futex] write_step_no_futex] timing_no_futex])

lemma at_switch_no_futex:
  "\<exists>evs. trace (at_switch e w) = trace w @ evs \<and> filter is_futex_op evs = []"
  by (simp add: do_sleep_def)

lemma delete_engine_no_futex:
  "\<exists>evs. trace (delete_engine w) = trace w @ evs \<and> filter is_futex_op evs = []"
  by (simp add: delete_engine_def Let_def)

text \<open>A cycle that is not the first COLD_IDLE cycle of a new generation.\<close>

lemma cycle_no_futex:
  assumes old: "mCommand (next_state e w) \<noteq> COLD_IDLE \<or> mColdGen (next_state e w) = coldGen w"
  shows "\<exists>evs. final_trace (cycle e w) = Some (trace w @ evs) \<and> filter is_futex_op evs = []"
    and "cycle e w = Continue w' \<Longrightarrow> coldGen w' = coldGen w"
proof -
  note sw = at_switch_no_futex[of e w]
  have cold: "cycle e w = Continue ((at_switch e w)\<lparr>sleepNs := FAST_HOT_IDLE_NS\<rparr>)"
    if "mCommand (next_state e w) = COLD_IDLE"
  proof -
    from that old have "mColdGen (next_state e w) = coldGen w" by simp
    with that show ?thesis
      by (simp add: cycle_at_switch next_state_def cold_idle_def deref_at_switch_current Let_def)
  qed
  show "\<exists>evs. final_trace (cycle e w) = Some (trace w @ evs) \<and> filter is_futex_op evs = []"
  proof (cases "mCommand (next_state e w)")
    case INITIAL
    then show ?thesis using sw by (simp add: cycle_at_switch next_state_def)
  next
    case HOT_IDLE
    then show ?thesis using sw by (simp add: cycle_at_switch next_state_def)
  next
    case COLD_IDLE
    then show ?thesis using sw by (simp add: cold)
  next
    case EXIT
    then have "cycle e w = Exited (delete_engine (at_switch e w))"
      by (simp add: cycle_at_switch next_state_def)
    then show ?thesis
      using no_futex_append[OF sw delete_engine_no_futex[of "at_switch e w"]] by simp
  next
    case MIX
    then have "cycle e w = Continue (work e MIX (at_switch e w))"
      by (simp add: cycle_at_switch next_state_def)
    then show ?thesis
      using no_futex_append[OF sw work_no_futex[of e MIX "at_switch e w"]] by simp
  next
    case WRITE
    then have "cycle e w = Continue (work e WRITE (at_switch e w))"
      by (simp add: cycle_at_switch next_state_def)
    then show ?thesis
      using no_futex_append[OF sw work_no_futex[of e WRITE "at_switch e w"]] by simp
  next
    case MIX_WRITE
    then have "cycle e w = Continue (work e MIX_WRITE (at_switch e w))"
      by (simp add: cycle_at_switch next_state_def)
    then show ?thesis
      using no_futex_append[OF sw work_no_futex[of e MIX_WRITE "at_switch e w"]] by simp
  qed
  show "coldGen w' = coldGen w" if "cycle e w = Continue w'"
  proof (cases "mCommand (next_state e w)")
    case COLD_IDLE
    with that show ?thesis by (auto simp: cold)
  qed (use that in \<open>auto simp: cycle_at_switch next_state_def\<close>)
qed

lemma run_same_epoch:
  assumes "same_epoch (coldGen w) es w"
  shows "\<exists>evs. final_trace (run es w) = Some (trace w @ evs) \<and> filter is_futex_op evs = []"
  using assms
proof (induction es arbitrary: w)
  case Nil
  then show ?case by simp
next
  case (Cons e es)
  from Cons.prems have old:
    "mCommand (next_state e w) \<noteq> COLD_IDLE \<or> mColdGen (next_state e w) = coldGen w"
    by simp
  note c = cycle_no_futex[OF old]
  show ?case
  proof (cases "cycle e w")
    case (Continue w1)
    from c(2)[OF Continue] have g: "coldGen w1 = coldGen w" .
    from Cons.prems Continue have "same_epoch (coldGen w1) es w1" by (simp add: g)
    from Cons.IH[OF this] obtain evs2 where
      2: "final_trace (run es w1) = Some (trace w1 @ evs2)" "filter is_futex_op evs2 = []"
      by blast
    from c(1) Continue obtain evs1 where
      1: "trace w1 = trace w @ evs1" "filter is_futex_op evs1 = []" by auto
    have "final_trace (run (e # es) w) = Some (trace w @ (evs1 @ evs2))"
      using Continue 1(1) 2(1) by simp
    moreover have "filter is_futex_op (evs1 @ evs2) = []" using 1(2) 2(2) by simp
    ultimately show ?thesis by blast
  next
    case (Exited w1)
    with c(1) show ?thesis by simp
  next
    case Crashed
    with c(1) show ?thesis by simp
  qed
qed

text \<open>C1, as the code has it. The thread compares \<open>mColdGen\<close> with the generation it
  last recorded, \<open>coldGen\<close>, which is 0 when the thread starts. Take a cycle whose state
  has the command COLD_IDLE, a non-null futex address and a \<open>mColdGen\<close> different from
  \<open>coldGen\<close>, followed by any number of cycles, of whatever commands, in which every
  COLD_IDLE state carries that same \<open>mColdGen\<close>. The first cycle calls the atomic
  decrement exactly once and the futex wait at most once, the wait exactly when the value
  found by the decrement is \<open>\<le> 0\<close>, and does nothing else but the sleep at the top of
  the loop; the cycles after it run without a crash and perform no atomic and no futex
  operation.\<close>

theorem C1_cold_idle_once:
  assumes cmd: "mCommand (next_state e w) = COLD_IDLE"
    and addr: "mColdFutexAddr (next_state e w) = Some a"
    and new: "mColdGen (next_state e w) \<noteq> coldGen w"
    and epoch: "same_epoch (mColdGen (next_state e w)) (e # es) w"
  shows "\<exists>w1 evs. cycle e w = Continue w1
           \<and> trace w1 = trace (do_sleep w) @
                AtomicDec a # (if futex_old e a \<le> 0 then [FutexWait a (futex_old e a - 1)] else [])
           \<and> sleepNs w1 = - 1
           \<and> final_trace (run es w1) = Some (trace w1 @ evs)
           \<and> filter is_futex_op evs = []"
proof -
  from cold_cycle[OF cmd[unfolded next_state_def] addr[unfolded next_state_def]] new
  obtain w1 where w1: "cycle e w = Continue w1"
    "trace w1 = trace (do_sleep w) @
       AtomicDec a # (if futex_old e a \<le> 0 then [FutexWait a (futex_old e a - 1)] else [])"
    "coldGen w1 = mColdGen (next_state e w)" "sleepNs w1 = - 1"
    by (auto simp: next_state_def)
  from epoch w1(1) have "same_epoch (coldGen w1) es w1" by (simp add: w1(3))
  from run_same_epoch[OF this] obtain evs where
    "final_trace (run es w1) = Some (trace w1 @ evs)" "filter is_futex_op evs = []" by blast
  with w1 show ?thesis by blast
qed

text \<open>C1 on the first cold-idle cycle of the thread, followed by a HOT_IDLE cycle and two
  more COLD_IDLE cycles of the same generation.\<close>

lemma c1_next: "next_state (c1_env a) w = heap (c1_env a) a"
  by (simp add: next_state_def next_ref_def deref_def c1_env_def)

theorem C1_witness:
  "\<exists>w1 evs. cycle (c1_env 10) worker_init = Continue w1
      \<and> trace w1 = [AtomicDec 5, FutexWait 5 (- 1)]
      \<and> final_trace (run [c1_env 20, c1_env 10, c1_env 10] w1) = Some (trace w1 @ evs)
      \<and> filter is_futex_op evs = []"
proof -
  have h: "mCommand (next_state (c1_env 10) worker_init) = COLD_IDLE"
    "mColdFutexAddr (next_state (c1_env 10) worker_init) = Some 5"
    "mColdGen (next_state (c1_env 10) worker_init) \<noteq> coldGen worker_init"
    by (simp_all add: c1_next) (simp_all add: c1_env_def worker_init_def)
  have g: "mColdGen (next_state (c1_env 10) worker_init) = 1"
    by (simp add: c1_next) (simp add: c1_env_def)
  have nx: "mCommand (next_state (c1_env a) w) \<noteq> COLD_IDLE
          \<or> mColdGen (next_state (c1_env a) w) = 1"
    if "a = 10 \<or> a = 20" for a w
    unfolding c1_next using that by (auto simp: c1_env_def)
  have step: "same_epoch 1 (c1_env a # es) w"
    if "a = 10 \<or> a = 20" and "\<And>w'. same_epoch 1 es w'" for a es w
    using nx[OF that(1), of w] that(2) by (simp split: outcome.splits)
  have "same_epoch 1 (c1_env 10 # [c1_env 20, c1_env 10, c1_env 10]) worker_init"
    by (intro step) simp_all
  then have ep: "same_epoch (mColdGen (next_state (c1_env 10) worker_init))
      (c1_env 10 # [c1_env 20, c1_env 10, c1_env 10]) worker_init"
    by (simp only: g)
  have t: "trace (do_sleep worker_init) = []" "futex_old (c1_env 10) 5 = 0"
    by (simp_all add: do_sleep_def worker_init_def c1_env_def)
  from C1_cold_idle_once[OF h ep] obtain w1 evs where w1:
    "cycle (c1_env 10) worker_init = Continue w1"
    "trace w1 = trace (do_sleep worker_init) @
       AtomicDec 5 # (if futex_old (c1_env 10) 5 \<le> 0
                      then [FutexWait 5 (futex_old (c1_env 10) 5 - 1)] else [])"
    "final_trace (run [c1_env 20, c1_env 10, c1_env 10] w1) = Some (trace w1 @ evs)"
    "filter is_futex_op evs = []"
    by blast
  from w1(2) have "trace w1 = [AtomicDec 5, FutexWait 5 (- 1)]"
    by (simp add: t)
  with w1(1,3,4) show ?thesis by blast
qed

text \<open>C1 as stated fails for a first epoch whose \<open>mColdGen\<close> is 0, the value the thread
  starts with: the state is the first COLD_IDLE state the thread observes and has a futex
  address, yet three cycles on it perform no atomic decrement; they only sleep.\<close>

theorem C1_counterexample:
  "mCommand (next_state (c1_env 30) worker_init) = COLD_IDLE
 \<and> mColdFutexAddr (next_state (c1_env 30) worker_init) = Some 5
 \<and> final_trace (run [c1_env 30, c1_env 30, c1_env 30] worker_init)
      = Some [Nanosleep 1000000, Nanosleep 1000000]"
proof -
  have "heap (c1_env 30) 30 = initial\<lparr>mCommand := COLD_IDLE, mColdFutexAddr := Some 5\<rparr>"
    by (simp add: c1_env_def)
  then have 1: "mCommand (next_state (c1_env 30) worker_init) = COLD_IDLE"
    "mColdFutexAddr (next_state (c1_env 30) worker_init) = Some 5"
    by (simp_all add: c1_next)
  have 2: "final_trace (run [c1_env 30, c1_env 30, c1_env 30] worker_init)
      = Some [Nanosleep 1000000, Nanosleep 1000000]"
    by (simp add: c1_env_def worker_init_def initial_def
        FastMixerDumpState_init_def step_defs)
  from 1 2 show ?thesis by simp
qed

subsection \<open>Pinning of the previous state (C4)\<close>

text \<open>C4. When the state of a cycle is not the current one, then on arrival at the switch
  statement: from non-idle to non-idle \<open>previous\<close> is the old \<open>current\<close>; from non-idle
  to idle the old current state has been copied into \<open>preIdle\<close>, \<open>previous\<close> points at
  that copy, the old timestamp is invalid and \<open>ignoreNextOverrun\<close> is set; from idle,
  \<open>previous\<close> is unchanged. In every case \<open>current\<close> is the new state.\<close>

theorem C4_previous_pinning:
  assumes change: "next_ref e w \<noteq> current w"
  shows "(\<not> has_IDLE (mCommand (deref e w (current w)))
          \<and> \<not> has_IDLE (mCommand (deref e w (next_ref e w))) \<longrightarrow>
       previous (at_switch e w) = current w
     \<and> current (at_switch e w) = next_ref e w
     \<and> preIdle (at_switch e w) = preIdle w
     \<and> oldTsValid (at_switch e w) = oldTsValid w
     \<and> ignoreNextOverrun (at_switch e w) = ignoreNextOverrun w)
 \<and> (\<not> has_IDLE (mCommand (deref e w (current w)))
          \<and> has_IDLE (mCommand (deref e w (next_ref e w))) \<longrightarrow>
       preIdle (at_switch e w) = deref e w (current w)
     \<and> previous (at_switch e w) = PreIdleRef
     \<and> deref e (at_switch e w) (previous (at_switch e w)) = deref e w (current w)
     \<and> current (at_switch e w) = next_ref e w
     \<and> \<not> oldTsValid (at_switch e w)
     \<and> ignoreNextOverrun (at_switch e w))
 \<and> (has_IDLE (mCommand (deref e w (current w))) \<longrightarrow>
       previous (at_switch e w) = previous w
     \<and> current (at_switch e w) = next_ref e w
     \<and> preIdle (at_switch e w) = preIdle w
     \<and> oldTsValid (at_switch e w) = oldTsValid w
     \<and> ignoreNextOverrun (at_switch e w) = ignoreNextOverrun w)"
  by (simp add: at_switch_change[OF change] state_change_previous deref_PreIdleRef)

text \<open>C4 from a current MIX, WRITE or COLD_IDLE state to a MIX or HOT_IDLE state.\<close>

theorem C4_witness:
  "previous (at_switch (two_env (sink_state MIX 192) (sink_state WRITE 192)) at2_worker) = QueueRef 2
 \<and> previous (at_switch (two_env (sink_state HOT_IDLE 192) (sink_state WRITE 192)) at2_worker) = PreIdleRef
 \<and> preIdle (at_switch (two_env (sink_state HOT_IDLE 192) (sink_state WRITE 192)) at2_worker)
      = sink_state WRITE 192
 \<and> \<not> oldTsValid (at_switch (two_env (sink_state HOT_IDLE 192) (sink_state WRITE 192)) at2_worker)
 \<and> ignoreNextOverrun (at_switch (two_env (sink_state HOT_IDLE 192) (sink_state WRITE 192)) at2_worker)
 \<and> previous (at_switch (two_env (sink_state MIX 192) (sink_state COLD_IDLE 192)) at2_worker) = InitialRef"
  using C4_previous_pinning [of "two_env (sink_state MIX 192) (sink_state WRITE 192)" at2_worker]
        C4_previous_pinning [of "two_env (sink_state HOT_IDLE 192) (sink_state WRITE 192)" at2_worker]
        C4_previous_pinning [of "two_env (sink_state MIX 192) (sink_state COLD_IDLE 192)" at2_worker]
  by (simp add: two_env_def at2_worker_def worker_init_def next_ref_def deref_def sink_state_def)

subsection \<open>The write to the sink (C8)\<close>

text \<open>C8. An attempted write (the command has WRITE, a sink and a buffer are bound)
  stores \<open>mWriteSequence + 1\<close> immediately before the single call of the sink's write and
  \<open>mWriteSequence + 2\<close> immediately after it, so the sequence grows by 2 and is odd only
  while the write is in flight; a non-negative result is added to \<open>mFramesWritten\<close>, a
  negative one increments \<open>mWriteErrors\<close>; the write is called once. Without an attempt
  nothing changes.\<close>

theorem C8_write_sequence:
  "(has_WRITE command \<and> outputSink w = Some sink \<and> mixBuffer w = Some buf \<longrightarrow>
      trace (write_step e command frameCount w) =
        trace w @ (if mixBufferState w = UNDEFINED then [Memset (frameCount * 2)] else [])
          @ [StoreWriteSequence (mWriteSequence (cur_dump w) + 1),
             SinkWrite sink
               (samples (if mixBufferState w = UNDEFINED then memset_zero buf (frameCount * 2)
                         else buf) (frameCount * 2)) frameCount,
             StoreWriteSequence (mWriteSequence (cur_dump w) + 2)]
    \<and> mWriteSequence (cur_dump (write_step e command frameCount w)) = mWriteSequence (cur_dump w) + 2
    \<and> (even (mWriteSequence (cur_dump w)) \<longrightarrow>
          odd (mWriteSequence (cur_dump w) + 1)
        \<and> even (mWriteSequence (cur_dump (write_step e command frameCount w))))
    \<and> (0 \<le> sink_write e \<longrightarrow>
          mFramesWritten (cur_dump (write_step e command frameCount w)) =
            mFramesWritten (cur_dump w) + word_of_int (sink_write e)
        \<and> mWriteErrors (cur_dump (write_step e command frameCount w)) = mWriteErrors (cur_dump w))
    \<and> (sink_write e < 0 \<longrightarrow>
          mWriteErrors (cur_dump (write_step e command frameCount w)) = mWriteErrors (cur_dump w) + 1
        \<and> mFramesWritten (cur_dump (write_step e command frameCount w)) = mFramesWritten (cur_dump w)))
 \<and> (\<not> (has_WRITE command \<and> outputSink w \<noteq> None \<and> mixBuffer w \<noteq> None) \<longrightarrow>
      write_step e command frameCount w = w)"
proof (intro conjI impI)
  assume a: "has_WRITE command \<and> outputSink w = Some sink \<and> mixBuffer w = Some buf"
  then have h: "has_WRITE command" "outputSink w = Some sink" "mixBuffer w = Some buf" by simp_all
  note d = write_step_dump[OF h, of e frameCount]
  show "trace (write_step e command frameCount w) =
        trace w @ (if mixBufferState w = UNDEFINED then [Memset (frameCount * 2)] else [])
          @ [StoreWriteSequence (mWriteSequence (cur_dump w) + 1),
             SinkWrite sink
               (samples (if mixBufferState w = UNDEFINED then memset_zero buf (frameCount * 2)
                         else buf) (frameCount * 2)) frameCount,
             StoreWriteSequence (mWriteSequence (cur_dump w) + 2)]"
    by (rule write_step_trace[OF h])
  show "mWriteSequence (cur_dump (write_step e command frameCount w)) = mWriteSequence (cur_dump w) + 2"
    by (simp add: d)
  show "odd (mWriteSequence (cur_dump w) + 1)" if "even (mWriteSequence (cur_dump w))"
    using that by simp
  show "even (mWriteSequence (cur_dump (write_step e command frameCount w)))"
    if "even (mWriteSequence (cur_dump w))"
    using that by (simp add: d)
  show "mFramesWritten (cur_dump (write_step e command frameCount w)) =
            mFramesWritten (cur_dump w) + word_of_int (sink_write e)" if "0 \<le> sink_write e"
    using that by (simp add: d)
  show "mWriteErrors (cur_dump (write_step e command frameCount w)) = mWriteErrors (cur_dump w)"
    if "0 \<le> sink_write e"
    using that by (simp add: d)
  show "mWriteErrors (cur_dump (write_step e command frameCount w)) = mWriteErrors (cur_dump w) + 1"
    if "sink_write e < 0"
    using that by (simp add: d)
  show "mFramesWritten (cur_dump (write_step e command frameCount w)) = mFramesWritten (cur_dump w)"
    if "sink_write e < 0"
    using that by (simp add: d)
next
  assume "\<not> (has_WRITE command \<and> outputSink w \<noteq> None \<and> mixBuffer w \<noteq> None)"
  then show "write_step e command frameCount w = w" by (rule write_step_skip)
qed

text \<open>C8 on a successful write of two frames, a failing write, and a command without
  WRITE.\<close>

theorem C8_witness:
  "trace (write_step (write_env 2) WRITE 2 (write_worker UNDEFINED 7))
     = [Memset 4, StoreWriteSequence 1, SinkWrite 1 [0, 0, 0, 0] 2, StoreWriteSequence 2]
 \<and> mWriteSequence (cur_dump (write_step (write_env 2) WRITE 2 (write_worker UNDEFINED 7))) = 2
 \<and> mFramesWritten (cur_dump (write_step (write_env 2) WRITE 2 (write_worker UNDEFINED 7))) = 2
 \<and> mWriteErrors (cur_dump (write_step (write_env 2) WRITE 2 (write_worker UNDEFINED 7))) = 0
 \<and> mWriteSequence (cur_dump (write_step (write_env (- 1)) WRITE 2 (write_worker UNDEFINED 7))) = 2
 \<and> mWriteErrors (cur_dump (write_step (write_env (- 1)) WRITE 2 (write_worker UNDEFINED 7))) = 1
 \<and> mFramesWritten (cur_dump (write_step (write_env (- 1)) WRITE 2 (write_worker UNDEFINED 7))) = 0
 \<and> write_step (write_env 2) MIX 2 (write_worker UNDEFINED 7) = write_worker UNDEFINED 7"
  using C8_write_sequence [of WRITE "write_worker UNDEFINED 7" 1 "\<lambda>_. 7" "write_env 2" 2]
        C8_write_sequence [of WRITE "write_worker UNDEFINED 7" 1 "\<lambda>_. 7" "write_env (- 1)" 2]
        C8_write_sequence [of MIX "write_worker UNDEFINED 7" 1 "\<lambda>_. 7" "write_env 2" 2]
  by (simp add: write_worker_def write_env_def worker_init_def cur_dump_def FastMixerDumpState_init_def
        samples_def memset_zero_def numeral_eq_Suc)

lemma samples_zero: "\<forall>i<n. b i = 0 \<Longrightarrow> samples b n = replicate n 0"
proof -
  assume "\<forall>i<n. b i = 0"
  then have "map b [0..<n] = map (\<lambda>_. 0) [0..<n]" by (intro map_cong) auto
  then show ?thesis by (simp add: samples_def map_replicate_const)
qed

lemma samples_memset_zero: "samples (memset_zero b n) n = replicate n 0"
  by (rule samples_zero) (simp add: memset_zero_def)

lemma mix_step_skip:
  "\<not> (has_MIX command \<and> mixer w \<noteq> None) \<Longrightarrow>
     mix_step e command w = (if mixBufferState w = MIXED then w\<lparr>mixBufferState := UNDEFINED\<rparr> else w)"
  by (auto simp: mix_step_def)

text \<open>Within one cycle: when the write is attempted and the mix did not run (the command
  lacks MIX or there is no engine), a buffer marked MIXED is first marked UNDEFINED, an
  UNDEFINED buffer is cleared before the write, and the mark is ZEROED at the write. The
  samples handed to the sink are all zero if a buffer that enters the cycle marked ZEROED
  holds zeros on the range written, the hypothesis \<open>zeroed\<close>.\<close>

lemma write_without_mix_is_silence:
  assumes nomix: "\<not> (has_MIX command \<and> mixer w \<noteq> None)"
    and wr: "has_WRITE command" "outputSink w = Some sink" "mixBuffer w = Some buf"
    and zeroed: "mixBufferState w = ZEROED \<longrightarrow> (\<forall>i<frameCount * 2. buf i = 0)"
  shows "mixBufferState (mix_step e command w) =
           (if mixBufferState w = MIXED then UNDEFINED else mixBufferState w)
       \<and> trace (write_step e command frameCount (mix_step e command w)) =
           trace w @ (if mixBufferState w = ZEROED then [] else [Memset (frameCount * 2)])
             @ [StoreWriteSequence (mWriteSequence (cur_dump w) + 1),
                SinkWrite sink (replicate (frameCount * 2) 0) frameCount,
                StoreWriteSequence (mWriteSequence (cur_dump w) + 2)]
       \<and> mixBufferState (write_step e command frameCount (mix_step e command w)) = ZEROED"
proof -
  define w1 where "w1 = mix_step e command w"
  have w1: "w1 = (if mixBufferState w = MIXED then w\<lparr>mixBufferState := UNDEFINED\<rparr> else w)"
    unfolding w1_def using nomix by (rule mix_step_skip)
  have f: "outputSink w1 = Some sink" "mixBuffer w1 = Some buf" "trace w1 = trace w"
    "cur_dump w1 = cur_dump w"
    "mixBufferState w1 = (if mixBufferState w = MIXED then UNDEFINED else mixBufferState w)"
    using wr by (simp_all add: w1 cur_dump_def)
  have st: "mixBufferState w1 = UNDEFINED \<longleftrightarrow> mixBufferState w \<noteq> ZEROED"
    by (cases "mixBufferState w") (simp_all add: f)
  have data: "samples (if mixBufferState w1 = UNDEFINED then memset_zero buf (frameCount * 2) else buf)
                (frameCount * 2) = replicate (frameCount * 2) 0"
    using zeroed by (simp add: st samples_memset_zero samples_zero)
  have tr: "trace (write_step e command frameCount w1) =
           trace w @ (if mixBufferState w = ZEROED then [] else [Memset (frameCount * 2)])
             @ [StoreWriteSequence (mWriteSequence (cur_dump w) + 1),
                SinkWrite sink (replicate (frameCount * 2) 0) frameCount,
                StoreWriteSequence (mWriteSequence (cur_dump w) + 2)]"
    unfolding write_step_trace[OF wr(1) f(1) f(2)] data
    by (cases "mixBufferState w") (simp_all add: f)
  have zs: "mixBufferState (write_step e command frameCount w1) = ZEROED"
    unfolding write_step_state[OF wr(1) f(1) f(2)]
    by (cases "mixBufferState w") (simp_all add: f)
  from f(5) tr zs show ?thesis unfolding w1_def by blast
qed

text \<open>On a buffer left MIXED with stale samples and on a buffer already ZEROED.\<close>

lemma write_without_mix_is_silence_example:
  "trace (write_step (write_env 2) WRITE 2 (mix_step (write_env 2) WRITE (write_worker MIXED 7)))
     = [Memset 4, StoreWriteSequence 1, SinkWrite 1 [0, 0, 0, 0] 2, StoreWriteSequence 2]
 \<and> mixBufferState (write_step (write_env 2) WRITE 2 (mix_step (write_env 2) WRITE (write_worker MIXED 7)))
     = ZEROED
 \<and> trace (write_step (write_env 2) WRITE 2 (mix_step (write_env 2) WRITE (write_worker ZEROED 0)))
     = [StoreWriteSequence 1, SinkWrite 1 [0, 0, 0, 0] 2, StoreWriteSequence 2]"
  using write_without_mix_is_silence [of WRITE "write_worker MIXED 7" 1 "\<lambda>_. 7" 2 "write_env 2"]
        write_without_mix_is_silence [of WRITE "write_worker ZEROED 0" 1 "\<lambda>_. 0" 2 "write_env 2"]
  by (simp add: write_worker_def worker_init_def cur_dump_def FastMixerDumpState_init_def
        numeral_eq_Suc)

subsection \<open>Order of the track diff (C2)\<close>

text \<open>C2. A track diff calls the engine first for the removed slots
  (\<open>previous & ~current\<close>: delete the handle), then for the added slots
  (\<open>current & ~previous\<close>: get a handle, bind the buffer provider, set the main buffer,
  enable), then for the modified slots (\<open>current & previous\<close>, where the generation of
  the slot differs from the recorded one), each set in ascending slot order; the three
  sets are disjoint. For the masks 0b0011 and 0b0110, with slot 1 unmodified, the handle of
  slot 0 is deleted before the handle of slot 2 is obtained, and the handle and the
  generation of slot 1 stay as they were.\<close>

theorem C2_track_diff_order:
  fixes pm :: uint32
  shows "trace (track_diff e cur pm w) =
           trace w @ (if mixer w \<noteq> None
                      then removed_events w (set_bits (pm AND NOT (mTrackMask cur)))
                         @ added_events e cur (set_bits (mTrackMask cur AND NOT pm))
                         @ modified_events cur w (set_bits (mTrackMask cur AND pm))
                      else [])
       \<and> set (set_bits (pm AND NOT (mTrackMask cur))) \<inter> set (set_bits (mTrackMask cur AND NOT pm)) = {}
       \<and> set (set_bits (pm AND NOT (mTrackMask cur))) \<inter> set (set_bits (mTrackMask cur AND pm)) = {}
       \<and> set (set_bits (mTrackMask cur AND NOT pm)) \<inter> set (set_bits (mTrackMask cur AND pm)) = {}
       \<and> (pm = 3 \<and> mTrackMask cur = 6 \<and> mixer w \<noteq> None
            \<and> mGeneration (mFastTracks cur 1) = generations w 1 \<longrightarrow>
            trace (track_diff e cur pm w) =
              trace w @ [MixerDeleteTrackName (fastTrackNames w 0),
                         MixerGetTrackName (getTrackName e 2),
                         MixerSetBufferProvider (getTrackName e 2) (mBufferProvider (mFastTracks cur 2)),
                         MixerSetParameter (getTrackName e 2) TRACK MAIN_BUFFER MixBufferPtr,
                         MixerEnable (getTrackName e 2)]
          \<and> fastTrackNames (track_diff e cur pm w) 1 = fastTrackNames w 1
          \<and> generations (track_diff e cur pm w) 1 = generations w 1
          \<and> fastTrackNames (track_diff e cur pm w) 2 = getTrackName e 2)"
proof -
  have b: "set_bits 1 = [0]" "set_bits 4 = [2]" "set_bits 2 = [1]"
    by code_simp+
  show ?thesis
    by (simp add: track_diff_eq masks_disjoint)
       (simp add: b removed_events_def added_events_def modified_events_def)
qed

text \<open>C2 on the masks 0b0011 and 0b0110 with handles \<open>4096 + i\<close>.\<close>

theorem C2_witness:
  "trace (track_diff (two_env diff_state diff_state) diff_state 3 diff_worker) =
     [MixerDeleteTrackName 4096, MixerGetTrackName 4098,
      MixerSetBufferProvider 4098 (Some 102),
      MixerSetParameter 4098 TRACK MAIN_BUFFER MixBufferPtr, MixerEnable 4098]
 \<and> fastTrackNames (track_diff (two_env diff_state diff_state) diff_state 3 diff_worker) 1 = 4097
 \<and> generations (track_diff (two_env diff_state diff_state) diff_state 3 diff_worker) 1 = 0
 \<and> fastTrackNames (track_diff (two_env diff_state diff_state) diff_state 3 diff_worker) 2 = 4098"
proof -
  have h: "(3::uint32) = 3 \<and> mTrackMask diff_state = 6 \<and> mixer diff_worker \<noteq> None
      \<and> mGeneration (mFastTracks diff_state 1) = generations diff_worker 1"
    by (simp add: diff_state_def diff_worker_def worker_init_def)
  have v: "trace diff_worker = []" "fastTrackNames diff_worker 0 = 4096"
    "fastTrackNames diff_worker (Suc 0) = 4097" "generations diff_worker (Suc 0) = 0"
    "getTrackName (two_env diff_state diff_state) 2 = 4098"
    "mBufferProvider (mFastTracks diff_state 2) = Some 102"
    by (simp_all add: diff_state_def diff_worker_def worker_init_def two_env_def)
  note c = C2_track_diff_order [of "two_env diff_state diff_state" diff_state 3 diff_worker,
      THEN conjunct2, THEN conjunct2, THEN conjunct2, THEN conjunct2, THEN mp, OF h]
  show ?thesis unfolding c[THEN conjunct1] v
    using c[THEN conjunct2] by (simp add: v)
qed

subsection \<open>Nothing new from the state queue (C10)\<close>

text \<open>C10. At the top of the loop (before the first cycle, or after a cycle, the queue's
  states being unchanged), a poll that returns null leaves \<open>current\<close>, \<open>previous\<close>, the
  dump-state pointer and the applied generations (tracks, sink, cold idle, per slot) as
  they are, and runs the command of the current state: idle commands only set the sleep
  time, MIX, WRITE and MIX_WRITE mix, write and measure without handling a state change.
  The built-in initial state has the command INITIAL, so as long as every poll returns
  null the thread only sleeps 1 ms per cycle: no engine, no buffer, no sink.\<close>

theorem C10_nothing_new:
  assumes none: "poll e = None"
    and top: "w = worker_init \<or> (\<exists>e0 w0. cycle e0 w0 = Continue w \<and> heap e0 = heap e)"
  shows "(\<exists>w'. cycle e w = Continue w'
      \<and> current w' = current w \<and> previous w' = previous w \<and> dumpState w' = dumpState w
      \<and> fastTracksGen w' = fastTracksGen w \<and> outputSinkGen w' = outputSinkGen w
      \<and> coldGen w' = coldGen w \<and> generations w' = generations w
      \<and> fastTrackNames w' = fastTrackNames w
      \<and> (mCommand (deref e w (current w)) \<in> {INITIAL, HOT_IDLE, COLD_IDLE} \<longrightarrow>
            w' = (at_switch e w)\<lparr>sleepNs := FAST_HOT_IDLE_NS\<rparr>)
      \<and> (mCommand (deref e w (current w)) \<in> {MIX, WRITE, MIX_WRITE} \<longrightarrow>
            w' = timing e
                   (write_step e (mCommand (deref e w (current w)))
                      (mFrameCount (deref e w (current w)))
                      (mix_step e (mCommand (deref e w (current w))) (at_switch e w)))))
   \<and> mCommand initial = INITIAL
   \<and> (\<forall>es. (\<forall>e'\<in>set es. poll e' = None) \<longrightarrow>
         (\<exists>w'. run es worker_init = Continue w' \<and> current w' = InitialRef \<and> previous w' = InitialRef
           \<and> mixer w' = None \<and> mixBuffer w' = None \<and> outputSink w' = None
           \<and> trace w' = replicate (length es - 1) (Nanosleep FAST_HOT_IDLE_NS)))"
proof -
  have "settled e w"
    using top settled_init[of e] cycle_settles[of _ _ w e] by auto
  from nothing_new_cycle[OF none this] run_before_first_state show ?thesis
    by (simp add: initial_def)
qed

text \<open>C10 on the first cycle of the thread, on the cycle after a MIX cycle, and on three
  cycles before any state is published.\<close>

theorem C10_witness:
  "(\<exists>w'. cycle (clock_env None) worker_init = Continue w'
        \<and> current w' = InitialRef \<and> previous w' = InitialRef)
 \<and> (\<exists>w'. cycle ((two_env (sink_state MIX 192) initial)\<lparr>poll := None\<rparr>)
             (work (two_env (sink_state MIX 192) initial) MIX
                (at_switch (two_env (sink_state MIX 192) initial) worker_init)) = Continue w'
        \<and> current w' = QueueRef 1 \<and> previous w' = QueueRef 1)
 \<and> (\<exists>w'. run [clock_env None, clock_env None, clock_env None] worker_init = Continue w'
        \<and> trace w' = [Nanosleep 1000000, Nanosleep 1000000])"
proof -
  let ?e0 = "two_env (sink_state MIX 192) initial"
  let ?w1 = "work ?e0 MIX (at_switch ?e0 worker_init)"
  have n: "next_ref ?e0 worker_init = QueueRef 1"
    by (simp add: next_ref_def two_env_def)
  have "mCommand (deref ?e0 worker_init (next_ref ?e0 worker_init)) = MIX"
    by (simp add: next_ref_def deref_def two_env_def sink_state_def)
  then have c0: "cycle ?e0 worker_init = Continue ?w1"
    by (simp add: cycle_at_switch)
  have p: "poll (clock_env None) = None" "poll (?e0\<lparr>poll := None\<rparr>) = None"
    by (simp_all add: clock_env_def)
  have top: "?w1 = worker_init \<or> (\<exists>e0 w0. cycle e0 w0 = Continue ?w1 \<and> heap e0 = heap (?e0\<lparr>poll := None\<rparr>))"
    using c0 by (intro disjI2 exI[of _ ?e0] exI[of _ worker_init]) simp
  have f: "current ?w1 = QueueRef 1" "previous ?w1 = QueueRef 1"
    by (simp_all add: n)
  have a: "\<exists>w'. cycle (clock_env None) worker_init = Continue w'
        \<and> current w' = InitialRef \<and> previous w' = InitialRef"
    using C10_nothing_new [OF p(1), of worker_init] by (auto simp: worker_init_def)
  have b: "\<exists>w'. cycle (?e0\<lparr>poll := None\<rparr>) ?w1 = Continue w'
        \<and> current w' = QueueRef 1 \<and> previous w' = QueueRef 1"
    using C10_nothing_new [OF p(2) top] f by auto
  have q: "\<forall>e'\<in>set [clock_env None, clock_env None, clock_env None]. poll e' = None"
    by (simp add: clock_env_def)
  have r: "replicate (length [clock_env None, clock_env None, clock_env None] - 1)
             (Nanosleep FAST_HOT_IDLE_NS) = [Nanosleep 1000000, Nanosleep 1000000]"
    by (simp add: FAST_HOT_IDLE_NS_def)
  have "worker_init = worker_init \<or>
      (\<exists>e0 w0. cycle e0 w0 = Continue worker_init \<and> heap e0 = heap (clock_env None))"
    by simp
  from C10_nothing_new [OF p(1) this, THEN conjunct2, THEN conjunct2, THEN spec, THEN mp, OF q]
  have c: "\<exists>w'. run [clock_env None, clock_env None, clock_env None] worker_init = Continue w'
        \<and> trace w' = [Nanosleep 1000000, Nanosleep 1000000]"
    unfolding r by blast
  from a b c show ?thesis by blast
qed

subsection \<open>Suppression of the overrun after an underrun (C6)\<close>

lemma dumps_at_switch:
  "dumps (at_switch e w) =
     (dumps w)(dumpState (at_switch e w) :=
        (dumps w (dumpState (at_switch e w)))\<lparr>mCommand_dump := mCommand (deref e w (next_ref e w))\<rparr>)"
  by (simp add: at_switch_def Let_def)

lemma counters_at_switch [simp]:
  "mUnderruns (dumps (at_switch e w) d) = mUnderruns (dumps w d)"
  "mOverruns (dumps (at_switch e w) d) = mOverruns (dumps w d)"
  by (simp_all add: dumps_at_switch)

lemma counters_handle_state_change [simp]:
  "mUnderruns (dumps (handle_state_change e w) d) = mUnderruns (dumps w d)"
  "mOverruns (dumps (handle_state_change e w) d) = mOverruns (dumps w d)"
  by (simp_all add: handle_state_change_def Let_def track_diff_eq)

lemma counters_write_step [simp]:
  "mUnderruns (dumps (write_step e c n w) d) = mUnderruns (dumps w d)"
  "mOverruns (dumps (write_step e c n w) d) = mOverruns (dumps w d)"
  by (cases "has_WRITE c \<and> outputSink w \<noteq> None \<and> mixBuffer w \<noteq> None";
      auto simp: write_step_skip write_step_eq cur_dump_def)+

lemma ignore_at_switch: "ignoreNextOverrun w \<Longrightarrow> ignoreNextOverrun (at_switch e w)"
  by (cases "next_ref e w = current w")
     (simp_all add: at_switch_same at_switch_change state_change_previous)

lemma timing_underrun_sets:
  "mUnderruns (dumps (timing e w) d) \<noteq> mUnderruns (dumps w d) \<Longrightarrow> ignoreNextOverrun (timing e w)"
  by (auto simp: timing_def classify_def Let_def upd_dump_def emit_def split: option.splits if_splits)

lemma timing_suppressed:
  "ignoreNextOverrun w \<Longrightarrow> mOverruns (dumps (timing e w) d) = mOverruns (dumps w d)"
  by (auto simp: timing_def classify_def Let_def upd_dump_def emit_def split: option.splits)

lemma work_underrun_sets:
  "mUnderruns (dumps (work e c w) d) \<noteq> mUnderruns (dumps w d) \<Longrightarrow> ignoreNextOverrun (work e c w)"
  unfolding work_def Let_def
  using timing_underrun_sets[of e "write_step e c (mFrameCount (deref e w (current w)))
          (mix_step e c (handle_state_change e w))" d]
  by simp

lemma work_suppressed:
  "ignoreNextOverrun w \<Longrightarrow> mOverruns (dumps (work e c w) d) = mOverruns (dumps w d)"
  unfolding work_def Let_def
  using timing_suppressed[of "write_step e c (mFrameCount (deref e w (current w)))
          (mix_step e c (handle_state_change e w))" e d]
  by simp

lemma cold_idle_counters:
  "cold_idle e w = Continue w' \<Longrightarrow>
     dumps w' = dumps w \<and> ignoreNextOverrun w' = ignoreNextOverrun w"
  by (auto simp: cold_idle_def Let_def split: if_splits option.splits)

lemma cycle_underrun_sets:
  assumes "cycle e w = Continue w'" "mUnderruns (dumps w' d) \<noteq> mUnderruns (dumps w d)"
  shows "ignoreNextOverrun w'"
proof (cases "mCommand (deref e w (next_ref e w))")
  case COLD_IDLE
  with assms(1) have "cold_idle e (at_switch e w) = Continue w'" by (simp add: cycle_at_switch)
  from cold_idle_counters[OF this] assms(2) show ?thesis by simp
next
  case MIX
  with assms(1) have "w' = work e MIX (at_switch e w)" by (simp add: cycle_at_switch)
  with assms(2) work_underrun_sets[of e MIX "at_switch e w" d] show ?thesis by simp
next
  case WRITE
  with assms(1) have "w' = work e WRITE (at_switch e w)" by (simp add: cycle_at_switch)
  with assms(2) work_underrun_sets[of e WRITE "at_switch e w" d] show ?thesis by simp
next
  case MIX_WRITE
  with assms(1) have "w' = work e MIX_WRITE (at_switch e w)" by (simp add: cycle_at_switch)
  with assms(2) work_underrun_sets[of e MIX_WRITE "at_switch e w" d] show ?thesis by simp
qed (use assms in \<open>auto simp: cycle_at_switch\<close>)

lemma cycle_suppressed:
  assumes "cycle e w = Continue w'" "ignoreNextOverrun w"
  shows "mOverruns (dumps w' d) = mOverruns (dumps w d)"
proof (cases "mCommand (deref e w (next_ref e w))")
  case COLD_IDLE
  with assms(1) have "cold_idle e (at_switch e w) = Continue w'" by (simp add: cycle_at_switch)
  from cold_idle_counters[OF this] show ?thesis by simp
next
  case MIX
  with assms(1) have "w' = work e MIX (at_switch e w)" by (simp add: cycle_at_switch)
  with work_suppressed[OF ignore_at_switch[OF assms(2)], of e MIX e d] show ?thesis by simp
next
  case WRITE
  with assms(1) have "w' = work e WRITE (at_switch e w)" by (simp add: cycle_at_switch)
  with work_suppressed[OF ignore_at_switch[OF assms(2)], of e WRITE e d] show ?thesis by simp
next
  case MIX_WRITE
  with assms(1) have "w' = work e MIX_WRITE (at_switch e w)" by (simp add: cycle_at_switch)
  with work_suppressed[OF ignore_at_switch[OF assms(2)], of e MIX_WRITE e d] show ?thesis by simp
qed (use assms in \<open>auto simp: cycle_at_switch\<close>)

text \<open>C6, as the code has it. A cycle that counts an underrun leaves
  \<open>ignoreNextOverrun\<close> set, and the cycle that follows it does not increment the overrun
  counter of any dump area, whatever interval it measures.\<close>

theorem C6_next_cycle_suppressed:
  assumes first: "cycle e1 w0 = Continue w1"
    and underrun: "mUnderruns (dumps w1 d) \<noteq> mUnderruns (dumps w0 d)"
    and second: "cycle e2 w1 = Continue w2"
  shows "ignoreNextOverrun w1 \<and> mOverruns (dumps w2 d') = mOverruns (dumps w1 d')"
  using cycle_underrun_sets[OF first underrun] cycle_suppressed[OF second] by simp


text \<open>C6 on the underrun at 8 ms followed by a cycle that measures 0.5 ms.\<close>

theorem C6_witness:
  "ignoreNextOverrun cx6_w2
 \<and> mOverruns (dumps (work (cx6_env 8500000) MIX (at_switch (cx6_env 8500000) cx6_w2)) DummyDump)
      = mOverruns (dumps cx6_w2 DummyDump)"
proof -
  have c: "mCommand (deref (cx6_env 8500000) cx6_w2 (next_ref (cx6_env 8500000) cx6_w2)) = MIX"
    by (simp add: cx6_env_def sink_env_def sink_state_def next_ref_def deref_def)
  have u: "mUnderruns (dumps cx6_w2 DummyDump) \<noteq> mUnderruns (dumps cx6_w1 DummyDump)"
    by (simp add: cx6_w2_def cx6_w1_def worker_init_def FastMixerDumpState_init_def)
  have s: "cycle (cx6_env 8500000) cx6_w2
             = Continue (work (cx6_env 8500000) MIX (at_switch (cx6_env 8500000) cx6_w2))"
    using c by (simp add: cycle_at_switch)
  from C6_next_cycle_suppressed[OF cx6_cycle2 u s] show ?thesis by simp
qed

text \<open>C6 as stated fails: after the underrun at 8 ms, a nominal cycle (4 ms) clears the
  suppression on line 370, and the overrun measured in the cycle after it (0.5 ms) is
  counted.\<close>

theorem C6_counterexample:
  "run [cx6_env 0, cx6_env 8000000, cx6_env 12000000, cx6_env 12500000] worker_init = Continue cx6_w4
 \<and> cycle (cx6_env 0) worker_init = Continue cx6_w1
 \<and> cycle (cx6_env 8000000) cx6_w1 = Continue cx6_w2
 \<and> mUnderruns (cur_dump cx6_w1) = 0 \<and> mUnderruns (cur_dump cx6_w2) = 1
 \<and> cycle (cx6_env 12000000) cx6_w2 = Continue cx6_w3
 \<and> mUnderruns (cur_dump cx6_w3) = 1 \<and> mOverruns (cur_dump cx6_w3) = 0
 \<and> cycle (cx6_env 12500000) cx6_w3 = Continue cx6_w4
 \<and> mOverruns (cur_dump cx6_w4) = 1"
  by (simp add: cx6_cycle1 cx6_cycle2 cx6_cycle3 cx6_cycle4)
     (simp add: cur_dump_def cx6_w4_def cx6_w3_def cx6_w2_def cx6_w1_def worker_init_def
        FastMixerDumpState_init_def)

subsection \<open>No engine without frames or sample rate\<close>

text \<open>The events of the steps that handle a changed state, and the engine they leave.\<close>

lemma quiet_track_events:
  "\<forall>ev\<in>set (removed_events w xs). \<not> creates_or_runs ev"
  "\<forall>ev\<in>set (added_events e cur xs). \<not> creates_or_runs ev"
  "\<forall>ev\<in>set (modified_events cur w xs). \<not> creates_or_runs ev"
  "\<forall>ev\<in>set (volume_events e cur w xs). \<not> creates_or_runs ev"
  by (auto simp: removed_events_def added_events_def modified_events_def volume_events_def
      split: if_splits option.splits)

lemma rebind_sink_trace:
  "\<exists>evs. trace (rebind_sink e cur w) = trace w @ evs \<and> (\<forall>ev\<in>set evs. \<not> creates_or_runs ev)"
  by (auto simp: rebind_sink_def Let_def split: option.splits)

lemma reconfigure_trace:
  "\<exists>evs. trace (reconfigure e cur n w) = trace w @ evs
     \<and> (mixer (reconfigure e cur n w) = None \<longrightarrow> (\<forall>ev\<in>set evs. \<not> creates_or_runs ev))"
  by (auto simp: reconfigure_def delete_engine_def Let_def emit_def)

lemma reconfigure_engine:
  "mixer (reconfigure e cur n w) =
     (if 0 < n \<and> 0 < sampleRate w then Some (n, sampleRate w) else None)"
  "(mixBuffer (reconfigure e cur n w) = None) = (\<not> (0 < n \<and> 0 < sampleRate w))"
  by (simp_all add: reconfigure_def delete_engine_def Let_def)

lemma track_diff_trace:
  "\<exists>evs. trace (track_diff e cur pm w) = trace w @ evs \<and> (\<forall>ev\<in>set evs. \<not> creates_or_runs ev)"
  using quiet_track_events by (auto simp: track_diff_eq)


lemma handle_state_change_engine:
  fixes e :: env and w :: worker
  assumes "current w \<noteq> previous w"
  defines "cur \<equiv> deref e w (current w)"
    and "prev \<equiv> deref e w (previous w)"
  defines "w1 \<equiv> rebind_sink e cur w"
  defines "reconf \<equiv> (format w1 \<noteq> format w \<or> mFrameCount cur \<noteq> mFrameCount prev)"
  shows "format (handle_state_change e w) = format w1"
    and "sampleRate (handle_state_change e w) = sampleRate w1"
    and "mixer (handle_state_change e w) =
           (if reconf then (if 0 < mFrameCount cur \<and> 0 < sampleRate w1
                            then Some (mFrameCount cur, sampleRate w1) else None)
            else mixer w)"
    and "(mixBuffer (handle_state_change e w) = None) =
           (if reconf then \<not> (0 < mFrameCount cur \<and> 0 < sampleRate w1)
            else mixBuffer w = None)"
  using assms(1)
  by (simp_all add: handle_state_change_def Let_def reconfigure_engine
        cur_def prev_def w1_def reconf_def)

lemma rebind_sink_rate:
  assumes "sampleRate w = SR (format w)" "Format_sampleRate e = SR" "SR Format_Invalid = 0"
  shows "sampleRate (rebind_sink e cur w) = SR (format (rebind_sink e cur w))"
  using assms by (simp add: rebind_sink_def Let_def split: option.splits)

lemma rebind_sink_same_format:
  assumes "sampleRate w = SR (format w)" "Format_sampleRate e = SR" "SR Format_Invalid = 0"
    "format (rebind_sink e cur w) = format w"
  shows "sampleRate (rebind_sink e cur w) = sampleRate w"
  using rebind_sink_rate[OF assms(1-3), of cur] assms(1,4) by simp

lemma handle_state_change_trace:
  "\<exists>evs. trace (handle_state_change e w) = trace w @ evs
     \<and> (mixer (handle_state_change e w) = None \<longrightarrow> (\<forall>ev\<in>set evs. \<not> creates_or_runs ev))"
proof (cases "current w = previous w")
  case True
  then show ?thesis by (simp add: handle_state_change_same)
next
  case False
  define cur where "cur = deref e w (current w)"
  define w1 where "w1 = rebind_sink e cur w"
  define reconf where "reconf = (format w1 \<noteq> format w
      \<or> mFrameCount cur \<noteq> mFrameCount (deref e w (previous w)))"
  define w2 where "w2 = (if reconf then reconfigure e cur (mFrameCount cur) w1 else w1)"
  define pm where "pm = (if reconf then 0 else mTrackMask (deref e w (previous w)))"
  define w3 where "w3 = (if mFastTracksGen cur \<noteq> fastTracksGen w2 then track_diff e cur pm w2 else w2)"
  have h: "handle_state_change e w = w3\<lparr>previous := current w3\<rparr>"
    using False
    by (simp add: handle_state_change_def Let_def cur_def w1_def reconf_def w2_def pm_def w3_def)
  obtain evs1 where e1: "trace w1 = trace w @ evs1" "\<forall>ev\<in>set evs1. \<not> creates_or_runs ev"
    using rebind_sink_trace[of e cur w] unfolding w1_def by blast
  obtain evs2 where e2: "trace w2 = trace w1 @ evs2"
    "mixer w2 = None \<longrightarrow> (\<forall>ev\<in>set evs2. \<not> creates_or_runs ev)"
  proof (cases reconf)
    case True
    with reconfigure_trace[of e cur "mFrameCount cur" w1] that show ?thesis
      unfolding w2_def by auto
  next
    case False
    with that[of "[]"] show ?thesis unfolding w2_def by simp
  qed
  obtain evs3 where e3: "trace w3 = trace w2 @ evs3" "\<forall>ev\<in>set evs3. \<not> creates_or_runs ev"
  proof (cases "mFastTracksGen cur \<noteq> fastTracksGen w2")
    case True
    with track_diff_trace[of e cur pm w2] that show ?thesis unfolding w3_def by auto
  next
    case False
    with that[of "[]"] show ?thesis unfolding w3_def by simp
  qed
  have m: "mixer (handle_state_change e w) = mixer w2"
    unfolding h w3_def by simp
  have t: "trace (handle_state_change e w) = trace w @ (evs1 @ evs2 @ evs3)"
    unfolding h using e1(1) e2(1) e3(1) by simp
  have q: "\<forall>ev\<in>set (evs1 @ evs2 @ evs3). \<not> creates_or_runs ev"
    if "mixer (handle_state_change e w) = None"
  proof -
    from that m have "mixer w2 = None" by simp
    with e2(2) have "\<forall>ev\<in>set evs2. \<not> creates_or_runs ev" by simp
    with e1(2) e3(2) show ?thesis by (simp add: ball_Un)
  qed
  show ?thesis
  proof (intro exI conjI impI)
    show "trace (handle_state_change e w) = trace w @ (evs1 @ evs2 @ evs3)" by (rule t)
    show "\<forall>ev\<in>set (evs1 @ evs2 @ evs3). \<not> creates_or_runs ev"
      if "mixer (handle_state_change e w) = None" using that by (rule q)
  qed
qed

lemma mix_step_engine [simp]:
  "(mixBuffer (mix_step e c w) = None) = (mixBuffer w = None)"
  by (simp add: mix_step_def Let_def for_each_bit_fold fold_volume)

lemma write_step_engine [simp]:
  "(mixBuffer (write_step e c n w) = None) = (mixBuffer w = None)"
  by (cases "has_WRITE c \<and> outputSink w \<noteq> None \<and> mixBuffer w \<noteq> None")
     (auto simp: write_step_skip write_step_eq)

lemma timing_trace: "trace (timing e w) = trace w @ [ClockGettime]"
  by (simp add: timing_def Let_def split: option.splits)

lemma work_engine:
  "mixer (work e c w) = mixer (handle_state_change e w)"
  "(mixBuffer (work e c w) = None) = (mixBuffer (handle_state_change e w) = None)"
  "format (work e c w) = format (handle_state_change e w)"
  "sampleRate (work e c w) = sampleRate (handle_state_change e w)"
  by (simp_all add: work_def Let_def)

lemma work_trace:
  assumes "mixer (work e c w) = None" "mixBuffer (work e c w) = None"
  shows "\<exists>evs. trace (work e c w) = trace w @ evs \<and> (\<forall>ev\<in>set evs. \<not> creates_or_runs ev)"
proof -
  let ?w1 = "handle_state_change e w"
  from assms have n: "mixer ?w1 = None" "mixBuffer ?w1 = None" by (simp_all add: work_engine)
  from handle_state_change_trace[of e w] n(1) obtain evs where
    evs: "trace ?w1 = trace w @ evs" "\<forall>ev\<in>set evs. \<not> creates_or_runs ev" by blast
  have m: "mix_step e c ?w1 = (if mixBufferState ?w1 = MIXED then ?w1\<lparr>mixBufferState := UNDEFINED\<rparr> else ?w1)"
    using n(1) by (intro mix_step_skip) simp
  have "mixBuffer (mix_step e c ?w1) = None" using n(2) by simp
  then have s: "write_step e c k (mix_step e c ?w1) = mix_step e c ?w1" for k
    by (intro write_step_skip) simp
  have "trace (work e c w) = trace w @ (evs @ [ClockGettime])"
    by (simp add: work_def Let_def s timing_trace) (simp add: m evs(1))
  with evs(2) show ?thesis by (intro exI[of _ "evs @ [ClockGettime]"]) auto
qed

text \<open>The invariant holds before the first iteration, depends on the environment only
  through the published states and the sample rates, and is kept by every iteration
  that does not poll a state with the command INITIAL.\<close>

lemma engine_inv_init:
  "Format_sampleRate e Format_Invalid = 0 \<Longrightarrow> engine_inv e worker_init"
  by (simp add: engine_inv_def worker_init_def)

lemma engine_inv_cong:
  assumes "engine_inv e w" "heap e' = heap e" "Format_sampleRate e' = Format_sampleRate e"
  shows "engine_inv e' w"
  using assms by (auto simp: engine_inv_def deref_heap[OF assms(2)])

lemma engine_invD:
  assumes "engine_inv e w"
  shows "(mixer w = None) = (mixBuffer w = None)"
    and "mixer w \<noteq> None \<Longrightarrow> 0 < mFrameCount (deref e w (previous w))"
    and "mixer w \<noteq> None \<Longrightarrow> 0 < sampleRate w"
    and "sampleRate w = Format_sampleRate e (format w)"
    and "\<not> has_IDLE (mCommand (deref e w (current w))) \<Longrightarrow> previous w = current w"
    and "current w = InitialRef \<or> (\<exists>a. current w = QueueRef a \<and> mCommand (heap e a) \<noteq> INITIAL)"
  using assms by (simp_all add: engine_inv_def)

lemma current_not_preIdle:
  "engine_inv e w \<Longrightarrow> current w \<noteq> PreIdleRef"
  by (auto simp: engine_inv_def)

lemma at_switch_current_ok:
  assumes inv: "engine_inv e w"
    and pub: "case poll e of None \<Rightarrow> True | Some a \<Rightarrow> mCommand (heap e a) \<noteq> INITIAL"
  shows "next_ref e w = InitialRef
       \<or> (\<exists>a. next_ref e w = QueueRef a \<and> mCommand (heap e a) \<noteq> INITIAL)"
proof (cases "poll e")
  case None
  then have "next_ref e w = current w" by (simp add: next_ref_def)
  with engine_invD(6)[OF inv] show ?thesis by simp
next
  case (Some a)
  with pub show ?thesis by (simp add: next_ref_def)
qed

lemma at_switch_prev:
  assumes inv: "engine_inv e w"
  shows "deref e (at_switch e w) (previous (at_switch e w)) = deref e w (previous w)"
proof (cases "next_ref e w = current w")
  case True
  have "deref e (at_switch e w) (previous w) = deref e w (previous w)"
    by (rule deref_same_preIdle) (simp add: at_switch_same[OF True])
  then show ?thesis by (simp add: at_switch_same[OF True])
next
  case False
  note ch = at_switch_change[OF False] state_change_previous
  show ?thesis
  proof (cases "has_IDLE (mCommand (deref e w (current w)))")
    case True
    have "deref e (at_switch e w) (previous w) = deref e w (previous w)"
      by (rule deref_same_preIdle) (simp add: ch True)
    then show ?thesis by (simp add: ch True)
  next
    case nonidle: False
    then have pc: "previous w = current w" by (rule engine_invD(5)[OF inv])
    show ?thesis
    proof (cases "has_IDLE (mCommand (deref e w (next_ref e w)))")
      case True
      then show ?thesis
        by (simp add: ch nonidle pc deref_PreIdleRef)
    next
      case False
      have "deref e (at_switch e w) (current w) = deref e w (current w)"
        by (rule deref_same_preIdle) (simp add: ch nonidle False)
      then show ?thesis by (simp add: ch nonidle False pc)
    qed
  qed
qed

lemma engine_inv_frame:
  assumes "mixer w' = mixer w" "mixBuffer w' = mixBuffer w" "format w' = format w"
    "sampleRate w' = sampleRate w" "previous w' = previous w" "current w' = current w"
    "preIdle w' = preIdle w"
  shows "engine_inv e w' = engine_inv e w"
  by (simp add: engine_inv_def deref_same_preIdle[OF assms(7)] assms(1-6))

lemma at_switch_engine_inv:
  assumes inv: "engine_inv e w"
    and pub: "case poll e of None \<Rightarrow> True | Some a \<Rightarrow> mCommand (heap e a) \<noteq> INITIAL"
    and cmd: "mCommand (deref e w (next_ref e w)) = INITIAL
            \<or> has_IDLE (mCommand (deref e w (next_ref e w)))"
  shows "engine_inv e (at_switch e w)"
proof -
  let ?w3 = "at_switch e w"
  have a: "(mixer ?w3 = None) = (mixBuffer ?w3 = None)"
    using engine_invD(1)[OF inv] by simp
  have b: "0 < mFrameCount (deref e ?w3 (previous ?w3)) \<and> 0 < sampleRate ?w3"
    if "mixer ?w3 \<noteq> None"
    using that engine_invD(2,3)[OF inv] by (simp add: at_switch_prev[OF inv])
  have c: "sampleRate ?w3 = Format_sampleRate e (format ?w3)"
    using engine_invD(4)[OF inv] by simp
  have d: "previous ?w3 = current ?w3"
    if ni: "\<not> has_IDLE (mCommand (deref e ?w3 (current ?w3)))"
  proof -
    from ni have ni': "\<not> has_IDLE (mCommand (deref e w (next_ref e w)))"
      by (simp add: deref_at_switch_current)
    with cmd have i: "mCommand (deref e w (next_ref e w)) = INITIAL" by simp
    have same: "next_ref e w = current w"
    proof (cases "poll e")
      case None
      then show ?thesis by (simp add: next_ref_def)
    next
      case (Some a)
      with pub i show ?thesis by (simp add: next_ref_def deref_def)
    qed
    from ni' same have "previous w = current w"
      by (intro engine_invD(5)[OF inv]) simp
    then show ?thesis by (simp add: at_switch_same[OF same] same)
  qed
  have e': "current ?w3 = InitialRef
       \<or> (\<exists>a. current ?w3 = QueueRef a \<and> mCommand (heap e a) \<noteq> INITIAL)"
    using at_switch_current_ok[OF inv pub] by simp
  show ?thesis
    unfolding engine_inv_def using a b c d e' by blast
qed

lemma cold_idle_frame:
  assumes "cold_idle e w = Continue w'"
  shows "mixer w' = mixer w" "mixBuffer w' = mixBuffer w" "format w' = format w"
    "sampleRate w' = sampleRate w" "previous w' = previous w" "current w' = current w"
    "preIdle w' = preIdle w"
    "\<exists>evs. trace w' = trace w @ evs \<and> (\<forall>ev\<in>set evs. \<not> creates_or_runs ev)"
  using assms
  by (auto simp: cold_idle_def Let_def split: if_splits option.splits)

lemma work_engine_inv:
  assumes a: "(mixer w = None) = (mixBuffer w = None)"
    and b: "mixer w \<noteq> None \<longrightarrow> 0 < mFrameCount (deref e w (previous w)) \<and> 0 < sampleRate w"
    and c: "sampleRate w = Format_sampleRate e (format w)"
    and fi: "Format_sampleRate e Format_Invalid = 0"
  shows "(mixer (work e cmd w) = None) = (mixBuffer (work e cmd w) = None)"
    and "mixer (work e cmd w) \<noteq> None \<Longrightarrow>
           0 < mFrameCount (deref e w (current w)) \<and> 0 < sampleRate (work e cmd w)"
    and "sampleRate (work e cmd w) = Format_sampleRate e (format (work e cmd w))"
proof -
  let ?h = "handle_state_change e w"
  have "((mixer ?h = None) = (mixBuffer ?h = None))
      \<and> (mixer ?h \<noteq> None \<longrightarrow> 0 < mFrameCount (deref e w (current w)) \<and> 0 < sampleRate ?h)
      \<and> sampleRate ?h = Format_sampleRate e (format ?h)"
  proof (cases "current w = previous w")
    case True
    then have "?h = w" by (simp add: handle_state_change_same)
    with a b c True show ?thesis by simp
  next
    case False
    define cur where "cur = deref e w (current w)"
    define w1 where "w1 = rebind_sink e cur w"
    note hs = handle_state_change_engine[OF False, of e, folded cur_def, folded w1_def]
    have r: "sampleRate w1 = Format_sampleRate e (format w1)"
      unfolding w1_def by (rule rebind_sink_rate[OF c refl fi])
    show ?thesis
    proof (cases "format w1 \<noteq> format w \<or> mFrameCount cur \<noteq> mFrameCount (deref e w (previous w))")
      case True
      then show ?thesis
        unfolding hs using r by (simp add: cur_def)
    next
      case same: False
      then have sr: "sampleRate w1 = sampleRate w" using r c by simp
      from same show ?thesis
        unfolding hs using a b c sr by (auto simp: cur_def)
    qed
  qed
  then show "(mixer (work e cmd w) = None) = (mixBuffer (work e cmd w) = None)"
    and "mixer (work e cmd w) \<noteq> None \<Longrightarrow>
           0 < mFrameCount (deref e w (current w)) \<and> 0 < sampleRate (work e cmd w)"
    and "sampleRate (work e cmd w) = Format_sampleRate e (format (work e cmd w))"
    by (auto simp: work_engine)
qed

lemma work_cycle_engine_inv:
  assumes inv: "engine_inv e w"
    and pub: "case poll e of None \<Rightarrow> True | Some a \<Rightarrow> mCommand (heap e a) \<noteq> INITIAL"
    and fi: "Format_sampleRate e Format_Invalid = 0"
  shows "engine_inv e (work e cmd (at_switch e w))"
proof -
  let ?w3 = "at_switch e w"
  let ?w' = "work e cmd ?w3"
  have a: "(mixer ?w3 = None) = (mixBuffer ?w3 = None)"
    using engine_invD(1)[OF inv] by simp
  have b: "mixer ?w3 \<noteq> None \<longrightarrow>
      0 < mFrameCount (deref e ?w3 (previous ?w3)) \<and> 0 < sampleRate ?w3"
    using engine_invD(2,3)[OF inv] by (simp add: at_switch_prev[OF inv])
  have c: "sampleRate ?w3 = Format_sampleRate e (format ?w3)"
    using engine_invD(4)[OF inv] by simp
  note we = work_engine_inv[OF a b c fi, of cmd]
  have dr: "deref e ?w' r = deref e ?w3 r" for r
    by (rule deref_same_preIdle) simp
  have e': "current ?w' = InitialRef
       \<or> (\<exists>a. current ?w' = QueueRef a \<and> mCommand (heap e a) \<noteq> INITIAL)"
    using at_switch_current_ok[OF inv pub] by simp
  have b': "0 < mFrameCount (deref e ?w' (previous ?w')) \<and> 0 < sampleRate ?w'"
    if "mixer ?w' \<noteq> None"
    using we(2)[OF that] by (simp add: dr)
  show ?thesis
    unfolding engine_inv_def using we(1) b' we(3) e' by simp
qed

lemma cycle_engine_inv:
  assumes inv: "engine_inv e w"
    and cyc: "cycle e w = Continue w'"
    and pub: "case poll e of None \<Rightarrow> True | Some a \<Rightarrow> mCommand (heap e a) \<noteq> INITIAL"
    and fi: "Format_sampleRate e Format_Invalid = 0"
  shows "engine_inv e w'"
proof (cases "mCommand (deref e w (next_ref e w))")
  case INITIAL
  with cyc have w': "w' = (at_switch e w)\<lparr>sleepNs := FAST_HOT_IDLE_NS\<rparr>"
    by (simp add: cycle_at_switch)
  have "engine_inv e w' = engine_inv e (at_switch e w)"
    unfolding w' by (rule engine_inv_frame) simp_all
  with at_switch_engine_inv[OF inv pub] INITIAL show ?thesis by simp
next
  case HOT_IDLE
  with cyc have w': "w' = (at_switch e w)\<lparr>sleepNs := FAST_HOT_IDLE_NS\<rparr>"
    by (simp add: cycle_at_switch)
  have "engine_inv e w' = engine_inv e (at_switch e w)"
    unfolding w' by (rule engine_inv_frame) simp_all
  with at_switch_engine_inv[OF inv pub] HOT_IDLE show ?thesis by simp
next
  case COLD_IDLE
  with cyc have c: "cold_idle e (at_switch e w) = Continue w'"
    by (simp add: cycle_at_switch)
  have "engine_inv e w' = engine_inv e (at_switch e w)"
    by (rule engine_inv_frame) (rule cold_idle_frame[OF c])+
  with at_switch_engine_inv[OF inv pub] COLD_IDLE show ?thesis by simp
next
  case EXIT
  with cyc show ?thesis by (simp add: cycle_at_switch)
next
  case MIX
  with cyc have "w' = work e MIX (at_switch e w)" by (simp add: cycle_at_switch)
  then show ?thesis by (simp add: work_cycle_engine_inv[OF inv pub fi])
next
  case WRITE
  with cyc have "w' = work e WRITE (at_switch e w)" by (simp add: cycle_at_switch)
  then show ?thesis by (simp add: work_cycle_engine_inv[OF inv pub fi])
next
  case MIX_WRITE
  with cyc have "w' = work e MIX_WRITE (at_switch e w)" by (simp add: cycle_at_switch)
  then show ?thesis by (simp add: work_cycle_engine_inv[OF inv pub fi])
qed

lemma do_sleep_trace:
  "\<exists>evs. trace (do_sleep w) = trace w @ evs \<and> (\<forall>ev\<in>set evs. \<not> creates_or_runs ev)"
  by (simp add: do_sleep_def)

lemma quiet_append:
  assumes "\<exists>evs. trace w1 = trace w @ evs \<and> (\<forall>ev\<in>set evs. \<not> creates_or_runs ev)"
    and "\<exists>evs. trace w2 = trace w1 @ evs \<and> (\<forall>ev\<in>set evs. \<not> creates_or_runs ev)"
  shows "\<exists>evs. trace w2 = trace w @ evs \<and> (\<forall>ev\<in>set evs. \<not> creates_or_runs ev)"
proof -
  from assms obtain evs1 evs2 where
    "trace w1 = trace w @ evs1" "\<forall>ev\<in>set evs1. \<not> creates_or_runs ev"
    "trace w2 = trace w1 @ evs2" "\<forall>ev\<in>set evs2. \<not> creates_or_runs ev" by blast
  then have "trace w2 = trace w @ (evs1 @ evs2)"
    "\<forall>ev\<in>set (evs1 @ evs2). \<not> creates_or_runs ev" by (simp_all add: ball_Un)
  then show ?thesis by blast
qed

lemma at_switch_trace:
  "\<exists>evs. trace (at_switch e w) = trace w @ evs \<and> (\<forall>ev\<in>set evs. \<not> creates_or_runs ev)"
  using do_sleep_trace[of w] by simp

lemma cycle_quiet:
  assumes post: "engine_inv e w'"
    and cyc: "cycle e w = Continue w'"
    and bad: "mFrameCount (deref e w' (current w')) = 0 \<or> sampleRate w' = 0"
  shows "\<exists>evs. trace w' = trace w @ evs \<and> (\<forall>ev\<in>set evs. \<not> creates_or_runs ev)"
proof -
  have idle: ?thesis if "w' = (at_switch e w)\<lparr>sleepNs := FAST_HOT_IDLE_NS\<rparr>"
    using at_switch_trace[of e w] by (simp add: that)
  have wk: ?thesis if w': "w' = work e cmd (at_switch e w)" for cmd
  proof -
    have pc: "previous w' = current w'" by (simp add: w')
    have "mixer w' = None"
    proof (rule ccontr)
      assume "mixer w' \<noteq> None"
      from engine_invD(2,3)[OF post this] bad show False by (simp add: pc)
    qed
    moreover from this have "mixBuffer w' = None" using engine_invD(1)[OF post] by simp
    ultimately have "\<exists>evs. trace w' = trace (at_switch e w) @ evs
        \<and> (\<forall>ev\<in>set evs. \<not> creates_or_runs ev)"
      unfolding w' by (rule work_trace)
    with at_switch_trace[of e w] show ?thesis by (rule quiet_append)
  qed
  show ?thesis
  proof (cases "mCommand (deref e w (next_ref e w))")
    case INITIAL
    with cyc show ?thesis by (intro idle) (simp add: cycle_at_switch)
  next
    case HOT_IDLE
    with cyc show ?thesis by (intro idle) (simp add: cycle_at_switch)
  next
    case COLD_IDLE
    with cyc have c: "cold_idle e (at_switch e w) = Continue w'"
      by (simp add: cycle_at_switch)
    from at_switch_trace[of e w] cold_idle_frame(8)[OF c] show ?thesis by (rule quiet_append)
  next
    case EXIT
    with cyc show ?thesis by (simp add: cycle_at_switch)
  next
    case MIX
    with cyc show ?thesis by (intro wk[of MIX]) (simp add: cycle_at_switch)
  next
    case WRITE
    with cyc show ?thesis by (intro wk[of WRITE]) (simp add: cycle_at_switch)
  next
    case MIX_WRITE
    with cyc show ?thesis by (intro wk[of MIX_WRITE]) (simp add: cycle_at_switch)
  qed
qed

lemma run_engine_inv:
  assumes "run es w0 = Continue w"
    and "engine_inv e w0"
    and "\<forall>e'\<in>set es. same_world e e'"
    and "Format_sampleRate e Format_Invalid = 0"
  shows "engine_inv e w"
  using assms
proof (induction es arbitrary: w0)
  case Nil
  then show ?case by simp
next
  case (Cons e1 es)
  from Cons.prems(3) have sw: "heap e1 = heap e" "Format_sampleRate e1 = Format_sampleRate e"
    by (simp_all add: same_world_def)
  from Cons.prems(3) have "case poll e1 of None \<Rightarrow> True | Some a \<Rightarrow> mCommand (heap e a) \<noteq> INITIAL"
    by (simp add: same_world_def)
  then have pub: "case poll e1 of None \<Rightarrow> True | Some a \<Rightarrow> mCommand (heap e1 a) \<noteq> INITIAL"
    by (simp add: sw(1) split: option.splits)
  from Cons.prems(1) obtain w1 where c: "cycle e1 w0 = Continue w1" and r: "run es w1 = Continue w"
    by (cases "cycle e1 w0") simp_all
  have "engine_inv e1 w0" using Cons.prems(2) sw(1,2) by (rule engine_inv_cong)
  from this c pub have "engine_inv e1 w1"
    by (rule cycle_engine_inv) (simp add: sw(2) Cons.prems(4))
  then have "engine_inv e w1" by (rule engine_inv_cong) (simp_all add: sw)
  with r show ?case using Cons.prems(3,4) by (intro Cons.IH[of w1]) simp_all
qed

text \<open>For a loop whose queue never publishes a state with the command INITIAL (the
  published states being immutable and the invalid format having the sample rate 0).
  Take any iteration reached from the start of the thread. If at its end the frame count
  of the current state is zero, or the sample rate the thread holds for its sink is zero,
  then the iteration has created neither an engine nor a mix buffer, has not run the
  engine and has not written to the sink; and if the command of the state is not idle,
  no engine and no mix buffer exist when the iteration ends. The statement covers the
  iteration that first sees such a state and every later one that still sees such a
  state.\<close>

lemma no_engine_without_frames:
  assumes run: "run es worker_init = Continue w"
    and cyc: "cycle e w = Continue w'"
    and world: "\<forall>e'\<in>set (e # es). same_world e e'"
    and fi: "Format_sampleRate e Format_Invalid = 0"
    and bad: "mFrameCount (deref e w' (current w')) = 0 \<or> sampleRate w' = 0"
  shows "(\<exists>evs. trace w' = trace w @ evs \<and> (\<forall>ev\<in>set evs. \<not> creates_or_runs ev))
       \<and> (\<not> has_IDLE (mCommand (deref e w' (current w'))) \<longrightarrow>
            mixer w' = None \<and> mixBuffer w' = None)"
proof -
  from world have es: "\<forall>e'\<in>set es. same_world e e'" and e: "same_world e e" by simp_all
  have "engine_inv e w"
    using run engine_inv_init[OF fi] es fi by (rule run_engine_inv)
  from this cyc have post: "engine_inv e w'"
    by (rule cycle_engine_inv) (use e fi in \<open>simp_all add: same_world_def\<close>)
  have q: "\<exists>evs. trace w' = trace w @ evs \<and> (\<forall>ev\<in>set evs. \<not> creates_or_runs ev)"
    using post cyc bad by (rule cycle_quiet)
  have n: "mixer w' = None \<and> mixBuffer w' = None"
    if ni: "\<not> has_IDLE (mCommand (deref e w' (current w')))"
  proof -
    from engine_invD(5)[OF post ni] have pc: "previous w' = current w'" .
    have m: "mixer w' = None"
    proof (rule ccontr)
      assume "mixer w' \<noteq> None"
      from engine_invD(2,3)[OF post this] bad show False by (simp add: pc)
    qed
    with engine_invD(1)[OF post] show ?thesis by simp
  qed
  from q n show ?thesis by blast
qed

text \<open>On a thread that has built an engine for 192 frames at 48000 Hz and then polls
  a MIX_WRITE state without frames: the engine and the buffer are deleted, nothing is
  mixed or written.\<close>

lemma no_engine_without_frames_example:
  "run [cx9_env INITIAL 10] worker_init = Continue cx9_w1
 \<and> cycle (cx9_env INITIAL 30) cx9_w1 = Continue cx9_w4
 \<and> mFrameCount (deref (cx9_env INITIAL 30) cx9_w4 (current cx9_w4)) = 0
 \<and> (\<exists>evs. trace cx9_w4 = trace cx9_w1 @ evs \<and> (\<forall>ev\<in>set evs. \<not> creates_or_runs ev))
 \<and> mixer cx9_w4 = None \<and> mixBuffer cx9_w4 = None"
proof -
  have r: "run [cx9_env INITIAL 10] worker_init = Continue cx9_w1"
    by (simp add: cx9_cycle1)
  have c: "cycle (cx9_env INITIAL 30) cx9_w1 = Continue cx9_w4"
    by (rule cx9_cycle4)
  have world: "\<forall>e'\<in>set (cx9_env INITIAL 30 # [cx9_env INITIAL 10]). same_world (cx9_env INITIAL 30) e'"
    by (simp add: same_world_def cx9_env_def sink_state_def)
  have fi: "Format_sampleRate (cx9_env INITIAL 30) Format_Invalid = 0"
    by (simp add: cx9_env_def)
  have st: "deref (cx9_env INITIAL 30) cx9_w4 (current cx9_w4) = sink_state MIX_WRITE 0"
    by (simp add: cx9_w4_def deref_def cx9_env_def)
  have bad: "mFrameCount (deref (cx9_env INITIAL 30) cx9_w4 (current cx9_w4)) = 0"
    by (simp add: st sink_state_def)
  have ni: "\<not> has_IDLE (mCommand (deref (cx9_env INITIAL 30) cx9_w4 (current cx9_w4)))"
    by (simp add: st sink_state_def)
  from no_engine_without_frames[OF r c world fi disjI1[OF bad]] ni r c bad
  show ?thesis by simp
qed

subsection \<open>Silence of a write without a mix\<close>

text \<open>The handling of a changed state only binds the sink and reconfigures the engine.\<close>

lemma configures_track_events:
  "\<forall>ev\<in>set (removed_events w xs). configures ev"
  "\<forall>ev\<in>set (added_events e cur xs). configures ev"
  "\<forall>ev\<in>set (modified_events cur w xs). configures ev"
  by (auto simp: removed_events_def added_events_def modified_events_def
      split: if_splits option.splits)

lemma rebind_sink_configures:
  "\<exists>evs. trace (rebind_sink e cur w) = trace w @ evs \<and> (\<forall>ev\<in>set evs. configures ev)"
  by (auto simp: rebind_sink_def Let_def split: option.splits)

lemma reconfigure_configures:
  "\<exists>evs. trace (reconfigure e cur n w) = trace w @ evs \<and> (\<forall>ev\<in>set evs. configures ev)"
  by (auto simp: reconfigure_def delete_engine_def Let_def emit_def)

lemma track_diff_configures:
  "\<exists>evs. trace (track_diff e cur pm w) = trace w @ evs \<and> (\<forall>ev\<in>set evs. configures ev)"
  using configures_track_events by (auto simp: track_diff_eq)

lemma configures_append:
  assumes "\<exists>evs. trace w1 = trace w @ evs \<and> (\<forall>ev\<in>set evs. configures ev)"
    and "\<exists>evs. trace w2 = trace w1 @ evs \<and> (\<forall>ev\<in>set evs. configures ev)"
  shows "\<exists>evs. trace w2 = trace w @ evs \<and> (\<forall>ev\<in>set evs. configures ev)"
proof -
  from assms obtain evs1 evs2 where
    "trace w1 = trace w @ evs1" "\<forall>ev\<in>set evs1. configures ev"
    "trace w2 = trace w1 @ evs2" "\<forall>ev\<in>set evs2. configures ev" by blast
  then have "trace w2 = trace w @ (evs1 @ evs2)" "\<forall>ev\<in>set (evs1 @ evs2). configures ev"
    by (simp_all add: ball_Un)
  then show ?thesis by blast
qed

lemma reconfigure_undefined: "mixBufferState (reconfigure e cur n w) = UNDEFINED"
  by (simp add: reconfigure_def Let_def)

lemma rebind_sink_buffer:
  "mixBuffer (rebind_sink e cur w) = mixBuffer w"
  "mixBufferState (rebind_sink e cur w) = mixBufferState w"
  by (simp_all add: rebind_sink_def Let_def split: option.splits)

text \<open>The handling of a changed state: its events, and the buffer it leaves.\<close>

lemma handle_state_change_buffer:
  fixes e :: env and w :: worker
  defines "h \<equiv> handle_state_change e w"
  shows "\<exists>evs. trace h = trace w @ evs \<and> (\<forall>ev\<in>set evs. configures ev)"
    and "mixBufferState h = ZEROED \<Longrightarrow>
          mixBufferState w = ZEROED \<and> mixBuffer h = mixBuffer w
          \<and> mFrameCount (deref e w (current w)) = mFrameCount (deref e w (previous w))"
proof -
  have "(\<exists>evs. trace h = trace w @ evs \<and> (\<forall>ev\<in>set evs. configures ev))
      \<and> (mixBufferState h = ZEROED \<longrightarrow>
          mixBufferState w = ZEROED \<and> mixBuffer h = mixBuffer w
          \<and> mFrameCount (deref e w (current w)) = mFrameCount (deref e w (previous w)))"
  proof (cases "current w = previous w")
    case True
    then have "h = w" by (simp add: h_def handle_state_change_same)
    with True show ?thesis by simp
  next
    case False
    define cur where "cur = deref e w (current w)"
    define w1 where "w1 = rebind_sink e cur w"
    define reconf where "reconf = (format w1 \<noteq> format w
        \<or> mFrameCount cur \<noteq> mFrameCount (deref e w (previous w)))"
    define w2 where "w2 = (if reconf then reconfigure e cur (mFrameCount cur) w1 else w1)"
    define pm where "pm = (if reconf then 0 else mTrackMask (deref e w (previous w)))"
    define w3 where "w3 = (if mFastTracksGen cur \<noteq> fastTracksGen w2 then track_diff e cur pm w2 else w2)"
    have h: "h = w3\<lparr>previous := current w3\<rparr>"
      using False
      by (simp add: h_def handle_state_change_def Let_def cur_def w1_def reconf_def w2_def
          pm_def w3_def)
    have 1: "\<exists>evs. trace w1 = trace w @ evs \<and> (\<forall>ev\<in>set evs. configures ev)"
      unfolding w1_def by (rule rebind_sink_configures)
    have 2: "\<exists>evs. trace w2 = trace w1 @ evs \<and> (\<forall>ev\<in>set evs. configures ev)"
      unfolding w2_def using reconfigure_configures[of e cur "mFrameCount cur" w1] by simp
    have 3: "\<exists>evs. trace w3 = trace w2 @ evs \<and> (\<forall>ev\<in>set evs. configures ev)"
      unfolding w3_def using track_diff_configures[of e cur pm w2] by simp
    have t: "\<exists>evs. trace h = trace w @ evs \<and> (\<forall>ev\<in>set evs. configures ev)"
      using configures_append[OF configures_append[OF 1 2] 3] by (simp add: h)
    have b3: "mixBufferState h = mixBufferState w2" "mixBuffer h = mixBuffer w2"
      by (simp_all add: h w3_def)
    have b: "mixBufferState w = ZEROED \<and> mixBuffer h = mixBuffer w
          \<and> mFrameCount (deref e w (current w)) = mFrameCount (deref e w (previous w))"
      if z: "mixBufferState h = ZEROED"
    proof (cases reconf)
      case True
      with z show ?thesis by (simp add: b3 w2_def reconfigure_undefined)
    next
      case nr: False
      then have "mFrameCount cur = mFrameCount (deref e w (previous w))"
        by (simp add: reconf_def)
      with z nr show ?thesis
        by (simp add: b3 w2_def w1_def rebind_sink_buffer cur_def)
    qed
    from t b show ?thesis by blast
  qed
  then show "\<exists>evs. trace h = trace w @ evs \<and> (\<forall>ev\<in>set evs. configures ev)"
    and "mixBufferState h = ZEROED \<Longrightarrow>
          mixBufferState w = ZEROED \<and> mixBuffer h = mixBuffer w
          \<and> mFrameCount (deref e w (current w)) = mFrameCount (deref e w (previous w))"
    by blast+
qed

lemma handle_state_change_zeroed:
  assumes "zeroed_inv e w"
  shows "mixBufferState (handle_state_change e w) = ZEROED \<longrightarrow>
     (\<exists>buf. mixBuffer (handle_state_change e w) = Some buf
        \<and> (\<forall>i < mFrameCount (deref e w (current w)) * 2. buf i = 0))"
  using assms handle_state_change_buffer(2)[of e w]
  by (auto simp: zeroed_inv_def)

lemma configures_silent: "configures ev \<Longrightarrow> silent ev \<and> ev \<noteq> MixerProcess"
  by (cases ev) simp_all

text \<open>The mix and the write, from a state whose ZEROED buffer holds zeros.\<close>

lemma mix_write_silence:
  fixes e :: env and c :: Command and h :: worker and fc :: nat
  assumes z: "mixBufferState h = ZEROED \<longrightarrow>
      (\<exists>buf. mixBuffer h = Some buf \<and> (\<forall>i < fc * 2. buf i = 0))"
  defines "w2 \<equiv> write_step e c fc (mix_step e c h)"
  shows "\<exists>evs. trace w2 = trace h @ evs \<and> (MixerProcess \<notin> set evs \<longrightarrow> (\<forall>ev\<in>set evs. silent ev))"
    and "mixBufferState w2 = ZEROED \<longrightarrow>
      (\<exists>buf. mixBuffer w2 = Some buf \<and> (\<forall>i < fc * 2. buf i = 0))"
proof -
  let ?m = "mix_step e c h"
  have "(\<exists>evs. trace w2 = trace h @ evs \<and> (MixerProcess \<notin> set evs \<longrightarrow> (\<forall>ev\<in>set evs. silent ev)))
      \<and> (mixBufferState w2 = ZEROED \<longrightarrow>
      (\<exists>buf. mixBuffer w2 = Some buf \<and> (\<forall>i < fc * 2. buf i = 0)))"
  proof (cases "has_MIX c \<and> mixer h \<noteq> None")
    case mix: True
    then have tm: "trace ?m = trace h @ (volume_events e (deref e h (current h)) h
        (set_bits (mTrackMask (deref e h (current h)))) @ [MixerProcess])"
      and sm: "mixBufferState ?m = MIXED"
      by (simp_all add: mix_step_def Let_def for_each_bit_fold fold_volume)
    show ?thesis
    proof (cases "has_WRITE c \<and> outputSink ?m \<noteq> None \<and> mixBuffer ?m \<noteq> None")
      case True
      then obtain s b where wr: "has_WRITE c" "outputSink ?m = Some s" "mixBuffer ?m = Some b"
        by blast
      have "\<exists>evs. trace w2 = trace ?m @ evs"
        unfolding w2_def write_step_trace[OF wr] by blast
      then obtain evs where "trace w2 = trace h @ ((volume_events e (deref e h (current h)) h
        (set_bits (mTrackMask (deref e h (current h)))) @ [MixerProcess]) @ evs)"
        by (auto simp: tm)
      moreover have "mixBufferState w2 = MIXED"
        unfolding w2_def write_step_state[OF wr] by (simp add: sm)
      ultimately show ?thesis
        by (intro conjI exI[of _ "(volume_events e (deref e h (current h)) h
        (set_bits (mTrackMask (deref e h (current h)))) @ [MixerProcess]) @ evs"]) simp_all
    next
      case False
      then have "w2 = ?m" unfolding w2_def by (rule write_step_skip)
      then show ?thesis
        by (intro conjI exI[of _ "volume_events e (deref e h (current h)) h
        (set_bits (mTrackMask (deref e h (current h)))) @ [MixerProcess]"]) (simp_all add: tm sm)
    qed
  next
    case nomix: False
    then have m: "?m = (if mixBufferState h = MIXED then h\<lparr>mixBufferState := UNDEFINED\<rparr> else h)"
      by (rule mix_step_skip)
    show ?thesis
    proof (cases "has_WRITE c \<and> outputSink h \<noteq> None \<and> mixBuffer h \<noteq> None")
      case True
      then obtain s b where wr: "has_WRITE c" "outputSink h = Some s" "mixBuffer h = Some b"
        by auto
      from z wr(3) have zb: "mixBufferState h = ZEROED \<longrightarrow> (\<forall>i<fc * 2. b i = 0)" by simp
      note sil = write_without_mix_is_silence[OF nomix wr zb, of e, folded w2_def]
      have wm: "outputSink ?m = Some s" "mixBuffer ?m = Some b" using wr by (simp_all add: m)
      have buf: "mixBuffer w2 = Some (if mixBufferState ?m = UNDEFINED
                   then memset_zero b (fc * 2) else b)"
        unfolding w2_def write_step_eq[OF wr(1) wm] by simp
      have zs: "\<forall>i < fc * 2. (if mixBufferState ?m = UNDEFINED
                   then memset_zero b (fc * 2) else b) i = 0"
        using zb by (cases "mixBufferState h") (simp_all add: m memset_zero_def)
      from sil have "trace w2 = trace h @ ((if mixBufferState h = ZEROED then [] else [Memset (fc * 2)])
             @ [StoreWriteSequence (mWriteSequence (cur_dump h) + 1),
                SinkWrite s (replicate (fc * 2) 0) fc,
                StoreWriteSequence (mWriteSequence (cur_dump h) + 2)])"
        by simp
      moreover have "\<forall>ev\<in>set ((if mixBufferState h = ZEROED then [] else [Memset (fc * 2)])
             @ [StoreWriteSequence (mWriteSequence (cur_dump h) + 1),
                SinkWrite s (replicate (fc * 2) 0) fc,
                StoreWriteSequence (mWriteSequence (cur_dump h) + 2)]). silent ev"
        by simp
      ultimately have "\<exists>evs. trace w2 = trace h @ evs \<and> (\<forall>ev\<in>set evs. silent ev)"
        by blast
      with buf zs show ?thesis by auto
    next
      case False
      then have "\<not> (has_WRITE c \<and> outputSink ?m \<noteq> None \<and> mixBuffer ?m \<noteq> None)"
        by (simp add: m)
      then have w2: "w2 = ?m" unfolding w2_def by (rule write_step_skip)
      have "trace w2 = trace h @ []" by (simp add: w2 m)
      moreover have "mixBufferState w2 = ZEROED \<longrightarrow>
          (\<exists>buf. mixBuffer w2 = Some buf \<and> (\<forall>i < fc * 2. buf i = 0))"
        using z by (simp add: w2 m)
      ultimately show ?thesis by (intro conjI exI[of _ "[]"]) simp_all
    qed
  qed
  then show "\<exists>evs. trace w2 = trace h @ evs \<and> (MixerProcess \<notin> set evs \<longrightarrow> (\<forall>ev\<in>set evs. silent ev))"
    and "mixBufferState w2 = ZEROED \<longrightarrow>
      (\<exists>buf. mixBuffer w2 = Some buf \<and> (\<forall>i < fc * 2. buf i = 0))"
    by blast+
qed

lemma silence_append:
  assumes "\<exists>evs. trace w1 = trace w @ evs \<and> (\<forall>ev\<in>set evs. silent ev \<and> ev \<noteq> MixerProcess)"
    and "\<exists>evs. trace w2 = trace w1 @ evs \<and> (MixerProcess \<notin> set evs \<longrightarrow> (\<forall>ev\<in>set evs. silent ev))"
  shows "\<exists>evs. trace w2 = trace w @ evs \<and> (MixerProcess \<notin> set evs \<longrightarrow> (\<forall>ev\<in>set evs. silent ev))"
proof -
  from assms obtain evs1 evs2 where
    1: "trace w1 = trace w @ evs1" "\<forall>ev\<in>set evs1. silent ev \<and> ev \<noteq> MixerProcess"
    and 2: "trace w2 = trace w1 @ evs2" "MixerProcess \<notin> set evs2 \<longrightarrow> (\<forall>ev\<in>set evs2. silent ev)"
    by blast
  have "trace w2 = trace w @ (evs1 @ evs2)" using 1(1) 2(1) by simp
  moreover have "MixerProcess \<notin> set (evs1 @ evs2) \<longrightarrow> (\<forall>ev\<in>set (evs1 @ evs2). silent ev)"
    using 1(2) 2(2) by auto
  ultimately show ?thesis by blast
qed

lemma silence_append_quiet:
  assumes "\<exists>evs. trace w1 = trace w @ evs \<and> (MixerProcess \<notin> set evs \<longrightarrow> (\<forall>ev\<in>set evs. silent ev))"
    and "\<exists>evs. trace w2 = trace w1 @ evs \<and> (\<forall>ev\<in>set evs. silent ev \<and> ev \<noteq> MixerProcess)"
  shows "\<exists>evs. trace w2 = trace w @ evs \<and> (MixerProcess \<notin> set evs \<longrightarrow> (\<forall>ev\<in>set evs. silent ev))"
proof -
  from assms obtain evs1 evs2 where
    1: "trace w1 = trace w @ evs1" "MixerProcess \<notin> set evs1 \<longrightarrow> (\<forall>ev\<in>set evs1. silent ev)"
    and 2: "trace w2 = trace w1 @ evs2" "\<forall>ev\<in>set evs2. silent ev \<and> ev \<noteq> MixerProcess"
    by blast
  have "trace w2 = trace w @ (evs1 @ evs2)" using 1(1) 2(1) by simp
  moreover have "MixerProcess \<notin> set (evs1 @ evs2) \<longrightarrow> (\<forall>ev\<in>set (evs1 @ evs2). silent ev)"
    using 1(2) 2(2) by auto
  ultimately show ?thesis by blast
qed

lemma work_silence:
  assumes zi: "zeroed_inv e w"
  shows "\<exists>evs. trace (work e c w) = trace w @ evs
           \<and> (MixerProcess \<notin> set evs \<longrightarrow> (\<forall>ev\<in>set evs. silent ev))"
    and "zeroed_inv e (work e c w)"
proof -
  let ?h = "handle_state_change e w"
  let ?fc = "mFrameCount (deref e w (current w))"
  let ?w2 = "write_step e c ?fc (mix_step e c ?h)"
  note z = handle_state_change_zeroed[OF zi]
  note mw = mix_write_silence[OF z, of e c]
  have wk: "work e c w = timing e ?w2" by (simp add: work_def Let_def)
  from handle_state_change_buffer(1)[of e w] configures_silent
  have 1: "\<exists>evs. trace ?h = trace w @ evs \<and> (\<forall>ev\<in>set evs. silent ev \<and> ev \<noteq> MixerProcess)"
    by blast
  have 3: "\<exists>evs. trace (timing e ?w2) = trace ?w2 @ evs
      \<and> (\<forall>ev\<in>set evs. silent ev \<and> ev \<noteq> MixerProcess)"
    by (simp add: timing_trace)
  show "\<exists>evs. trace (work e c w) = trace w @ evs
           \<and> (MixerProcess \<notin> set evs \<longrightarrow> (\<forall>ev\<in>set evs. silent ev))"
    unfolding wk by (rule silence_append_quiet[OF silence_append[OF 1 mw(1)] 3])
  have d: "deref e (work e c w) (previous (work e c w)) = deref e w (current w)"
    by (simp add: deref_same_preIdle[of "work e c w" w])
  have b: "mixBufferState (work e c w) = mixBufferState ?w2" "mixBuffer (work e c w) = mixBuffer ?w2"
    by (simp_all add: wk)
  show "zeroed_inv e (work e c w)"
    unfolding zeroed_inv_def d b using mw(2) .
qed

lemma zeroed_inv_frame:
  assumes "mixBuffer w' = mixBuffer w" "mixBufferState w' = mixBufferState w"
    "deref e w' (previous w') = deref e w (previous w)"
  shows "zeroed_inv e w' = zeroed_inv e w"
  by (simp add: zeroed_inv_def assms)

lemma at_switch_zeroed_inv:
  assumes "engine_inv e w" "zeroed_inv e w"
  shows "zeroed_inv e (at_switch e w)"
  using assms(2) zeroed_inv_frame[of "at_switch e w" w e] at_switch_prev[OF assms(1)]
  by simp

lemma do_sleep_silent:
  "\<exists>evs. trace (at_switch e w) = trace w @ evs \<and> (\<forall>ev\<in>set evs. silent ev \<and> ev \<noteq> MixerProcess)"
  by (simp add: do_sleep_def)

lemma cold_idle_silent:
  assumes "cold_idle e w = Continue w'"
  shows "\<exists>evs. trace w' = trace w @ evs \<and> (\<forall>ev\<in>set evs. silent ev \<and> ev \<noteq> MixerProcess)"
    and "mixBufferState w' = mixBufferState w"
  using assms
  by (auto simp: cold_idle_def Let_def split: if_splits option.splits)

lemma cycle_silence:
  assumes ei: "engine_inv e w" and zi: "zeroed_inv e w"
    and cyc: "cycle e w = Continue w'"
  shows "\<exists>evs. trace w' = trace w @ evs
           \<and> (MixerProcess \<notin> set evs \<longrightarrow> (\<forall>ev\<in>set evs. silent ev))"
    and "zeroed_inv e w'"
proof -
  let ?w3 = "at_switch e w"
  note z3 = at_switch_zeroed_inv[OF ei zi]
  note s3 = do_sleep_silent[of e w]
  have weaken: "\<exists>evs. trace w' = trace w @ evs
           \<and> (MixerProcess \<notin> set evs \<longrightarrow> (\<forall>ev\<in>set evs. silent ev))"
    if "\<exists>evs. trace w' = trace w @ evs \<and> (\<forall>ev\<in>set evs. silent ev \<and> ev \<noteq> MixerProcess)"
    using that by blast
  have idle: "(\<exists>evs. trace w' = trace w @ evs
           \<and> (MixerProcess \<notin> set evs \<longrightarrow> (\<forall>ev\<in>set evs. silent ev))) \<and> zeroed_inv e w'"
    if w': "w' = ?w3\<lparr>sleepNs := FAST_HOT_IDLE_NS\<rparr>"
  proof -
    have "zeroed_inv e w' = zeroed_inv e ?w3"
      unfolding w' by (rule zeroed_inv_frame)
        (simp_all add: deref_same_preIdle[of "?w3\<lparr>sleepNs := FAST_HOT_IDLE_NS\<rparr>" ?w3])
    moreover have "\<exists>evs. trace w' = trace w @ evs
        \<and> (\<forall>ev\<in>set evs. silent ev \<and> ev \<noteq> MixerProcess)"
      using s3 by (simp add: w')
    ultimately show ?thesis using z3 weaken by blast
  qed
  have wk: "(\<exists>evs. trace w' = trace w @ evs
           \<and> (MixerProcess \<notin> set evs \<longrightarrow> (\<forall>ev\<in>set evs. silent ev))) \<and> zeroed_inv e w'"
    if w': "w' = work e c ?w3" for c
    unfolding w' using silence_append[OF s3 work_silence(1)[OF z3, of c]] work_silence(2)[OF z3, of c]
    by blast
  have "(\<exists>evs. trace w' = trace w @ evs
           \<and> (MixerProcess \<notin> set evs \<longrightarrow> (\<forall>ev\<in>set evs. silent ev))) \<and> zeroed_inv e w'"
  proof (cases "mCommand (deref e w (next_ref e w))")
    case INITIAL
    with cyc show ?thesis by (intro idle) (simp add: cycle_at_switch)
  next
    case HOT_IDLE
    with cyc show ?thesis by (intro idle) (simp add: cycle_at_switch)
  next
    case COLD_IDLE
    with cyc have c: "cold_idle e ?w3 = Continue w'" by (simp add: cycle_at_switch)
    have d: "deref e w' r = deref e ?w3 r" for r
      by (rule deref_same_preIdle[OF cold_idle_frame(7)[OF c]])
    have "zeroed_inv e w' = zeroed_inv e ?w3"
      by (rule zeroed_inv_frame)
        (simp_all add: cold_idle_frame(2,5)[OF c] cold_idle_silent(2)[OF c] d)
    moreover have "\<exists>evs. trace w' = trace ?w3 @ evs
        \<and> (\<forall>ev\<in>set evs. silent ev \<and> ev \<noteq> MixerProcess)"
      using c by (rule cold_idle_silent(1))
    then have "\<exists>evs. trace w' = trace ?w3 @ evs
           \<and> (MixerProcess \<notin> set evs \<longrightarrow> (\<forall>ev\<in>set evs. silent ev))"
      by blast
    note silence_append[OF s3 this]
    ultimately show ?thesis using z3 by blast
  next
    case EXIT
    with cyc show ?thesis by (simp add: cycle_at_switch)
  next
    case MIX
    with cyc show ?thesis by (intro wk[of MIX]) (simp add: cycle_at_switch)
  next
    case WRITE
    with cyc show ?thesis by (intro wk[of WRITE]) (simp add: cycle_at_switch)
  next
    case MIX_WRITE
    with cyc show ?thesis by (intro wk[of MIX_WRITE]) (simp add: cycle_at_switch)
  qed
  then show "\<exists>evs. trace w' = trace w @ evs
           \<and> (MixerProcess \<notin> set evs \<longrightarrow> (\<forall>ev\<in>set evs. silent ev))"
    and "zeroed_inv e w'" by blast+
qed

lemma zeroed_inv_cong:
  assumes "zeroed_inv e w" "heap e' = heap e"
  shows "zeroed_inv e' w"
  using assms by (simp add: zeroed_inv_def deref_heap[OF assms(2)])

lemma run_zeroed_inv:
  assumes "run es w0 = Continue w"
    and "engine_inv e w0" "zeroed_inv e w0"
    and "\<forall>e'\<in>set es. same_world e e'"
    and "Format_sampleRate e Format_Invalid = 0"
  shows "zeroed_inv e w"
  using assms
proof (induction es arbitrary: w0)
  case Nil
  then show ?case by simp
next
  case (Cons e1 es)
  from Cons.prems(4) have sw: "heap e1 = heap e" "Format_sampleRate e1 = Format_sampleRate e"
    by (simp_all add: same_world_def)
  from Cons.prems(4) have "case poll e1 of None \<Rightarrow> True | Some a \<Rightarrow> mCommand (heap e a) \<noteq> INITIAL"
    by (simp add: same_world_def)
  then have pub: "case poll e1 of None \<Rightarrow> True | Some a \<Rightarrow> mCommand (heap e1 a) \<noteq> INITIAL"
    by (simp add: sw(1) split: option.splits)
  from Cons.prems(1) obtain w1 where c: "cycle e1 w0 = Continue w1" and r: "run es w1 = Continue w"
    by (cases "cycle e1 w0") simp_all
  have e1: "engine_inv e1 w0" using Cons.prems(2) sw(1,2) by (rule engine_inv_cong)
  have z1: "zeroed_inv e1 w0" using Cons.prems(3) sw(1) by (rule zeroed_inv_cong)
  from e1 c pub have "engine_inv e1 w1"
    by (rule cycle_engine_inv) (simp add: sw(2) Cons.prems(5))
  then have ei: "engine_inv e w1" by (rule engine_inv_cong) (simp_all add: sw)
  from cycle_silence(2)[OF e1 z1 c] have "zeroed_inv e w1"
    by (rule zeroed_inv_cong) (simp add: sw)
  with r ei show ?case using Cons.prems(4,5) by (intro Cons.IH[of w1]) simp_all
qed

lemma zeroed_inv_init: "zeroed_inv e worker_init"
  by (simp add: zeroed_inv_def worker_init_def)

text \<open>For a loop whose queue never publishes a state with the command INITIAL (the
  published states being immutable and the invalid format having the sample rate 0): in
  every iteration reached from the start of the thread in which the engine does not mix,
  every write hands the sink zeros only.\<close>

lemma write_without_mix_is_silence_run:
  assumes run: "run es worker_init = Continue w"
    and cyc: "cycle e w = Continue w'"
    and world: "\<forall>e'\<in>set (e # es). same_world e e'"
    and fi: "Format_sampleRate e Format_Invalid = 0"
  shows "\<exists>evs. trace w' = trace w @ evs
           \<and> (MixerProcess \<notin> set evs \<longrightarrow> (\<forall>ev\<in>set evs. silent ev))"
proof -
  from world have es: "\<forall>e'\<in>set es. same_world e e'" by simp
  have ei: "engine_inv e w"
    using run engine_inv_init[OF fi] es fi by (rule run_engine_inv)
  have zi: "zeroed_inv e w"
    using run engine_inv_init[OF fi] zeroed_inv_init es fi by (rule run_zeroed_inv)
  from ei zi cyc show ?thesis by (rule cycle_silence(1))
qed

subsection \<open>A published state with the command INITIAL (C7, C9)\<close>



end
